theory Spec2Isabelle
  imports Main "HOL-Library.AList" "HOL-Library.Sublist"
begin

section \<open>Leaderboard broadcaster: data model\<close>

text \<open>
  Embedding of \<^verbatim>\<open>backend/src/services/leaderboard-broadcaster.service.ts\<close>.
  Ranks and timestamps are JavaScript numbers holding database integers and
  millisecond clock readings; they are modelled as \<open>int\<close>. PnL values are only copied
  from the rows into snapshots and payloads, no operation computes with them; they are
  carried as \<open>int\<close> as well.
\<close>

record RankSnapshot =
  userId :: string
  globalRank :: int
  weeklyRank :: int
  allTimePnl :: int
  weeklyPnl :: int
  timestamp :: int

text \<open>The field \<open>type\<close> of a \<open>RankChangeEvent\<close> is the constant \<^verbatim>\<open>'rank_changed'\<close>.\<close>

record RankChangeEvent =
  ev_type :: string
  ev_userId :: string
  previousGlobalRank :: int
  currentGlobalRank :: int
  previousWeeklyRank :: int
  currentWeeklyRank :: int
  rankChange :: int
  ev_timestamp :: int

text \<open>
  A JavaScript \<open>Map<string, RankSnapshot>\<close> iterates in insertion order and holds each
  key once. It is an association list whose keys are distinct: \<open>Map.get\<close> is
  \<open>map_of\<close>, \<open>Map.set\<close> is \<open>AList.update\<close> (an existing key keeps its position, a new
  key goes to the end), \<open>entries()\<close> is the list itself.
\<close>

type_synonym Snapshot = "(string \<times> RankSnapshot) list"

definition wf_snapshot :: "Snapshot \<Rightarrow> bool" where
  "wf_snapshot m = distinct (map fst m)"

section \<open>Rank change detection\<close>

text \<open>
  \<open>Array.prototype.sort\<close> with a comparator: the sort is stable, and \<open>cmp a b \<le> 0\<close>
  keeps \<open>a\<close> before \<open>b\<close>. Modelled as the insertion sort that places an element in
  front of the first element it does not compare greater than.
\<close>

fun insert_cmp :: "('a \<Rightarrow> 'a \<Rightarrow> int) \<Rightarrow> 'a \<Rightarrow> 'a list \<Rightarrow> 'a list" where
  "insert_cmp cmp x [] = [x]"
| "insert_cmp cmp x (y # ys) =
     (if cmp x y \<le> 0 then x # y # ys else y # insert_cmp cmp x ys)"

fun array_sort :: "('a \<Rightarrow> 'a \<Rightarrow> int) \<Rightarrow> 'a list \<Rightarrow> 'a list" where
  "array_sort cmp [] = []"
| "array_sort cmp (x # xs) = insert_cmp cmp x (array_sort cmp xs)"

text \<open>The comparator \<^verbatim>\<open>(a, b) => Math.abs(b.rankChange) - Math.abs(a.rankChange)\<close>.\<close>

definition by_magnitude :: "RankChangeEvent \<Rightarrow> RankChangeEvent \<Rightarrow> int" where
  "by_magnitude a b = \<bar>rankChange b\<bar> - \<bar>rankChange a\<bar>"

text \<open>
  The loop of \<open>detectRankChanges\<close> over \<open>currentSnapshot.entries()\<close>; the first argument
  is \<open>this.previousSnapshots\<close>. The result is the array \<open>changes\<close> before it is sorted.
\<close>

fun detectRankChanges_loop :: "Snapshot \<Rightarrow> Snapshot \<Rightarrow> RankChangeEvent list" where
  "detectRankChanges_loop previousSnapshots [] = []"
| "detectRankChanges_loop previousSnapshots ((uid, current) # rest) =
     (case map_of previousSnapshots uid of
        None \<Rightarrow> detectRankChanges_loop previousSnapshots rest
      | Some previous \<Rightarrow>
          (let globalRankChanged = (globalRank current \<noteq> globalRank previous);
               weeklyRankChanged = (weeklyRank current \<noteq> weeklyRank previous)
           in if globalRankChanged \<or> weeklyRankChanged
              then \<lparr> ev_type = ''rank_changed'',
                     ev_userId = uid,
                     previousGlobalRank = globalRank previous,
                     currentGlobalRank = globalRank current,
                     previousWeeklyRank = weeklyRank previous,
                     currentWeeklyRank = weeklyRank current,
                     rankChange = globalRank previous - globalRank current,
                     ev_timestamp = timestamp current \<rparr>
                   # detectRankChanges_loop previousSnapshots rest
              else detectRankChanges_loop previousSnapshots rest))"

definition detectRankChanges :: "Snapshot \<Rightarrow> Snapshot \<Rightarrow> RankChangeEvent list" where
  "detectRankChanges previousSnapshots currentSnapshot =
     array_sort by_magnitude (detectRankChanges_loop previousSnapshots currentSnapshot)"

section \<open>Effects, transport and ranking source\<close>

text \<open>
  The object literals handed to \<open>emit\<close> are JSON values; an object keeps its fields in
  the order of the literal.
\<close>

datatype json = JNum int | JStr string | JBool bool | JArr "json list" | JObj "(string \<times> json) list"

text \<open>Every field name that occurs in a value, at any depth.\<close>

fun field_names :: "json \<Rightarrow> string list" where
  "field_names (JObj kvs) = concat (map (\<lambda>kv. fst kv # field_names (snd kv)) kvs)"
| "field_names (JArr vs) = concat (map field_names vs)"
| "field_names _ = []"

text \<open>The fields of an object itself.\<close>

fun own_fields :: "json \<Rightarrow> string list" where
  "own_fields (JObj kvs) = map fst kvs"
| "own_fields _ = []"

fun lookup_field :: "string \<Rightarrow> json \<Rightarrow> json option" where
  "lookup_field k (JObj kvs) = map_of kvs k"
| "lookup_field k _ = None"

fun elements :: "json \<Rightarrow> json list" where
  "elements (JArr vs) = vs"
| "elements _ = []"

text \<open>
  What a cycle does to the outside world, in order: log lines (level and message, without
  the metadata object), calls of the ranking repository, and calls of
  \<^verbatim>\<open>io.to(room).emit(event, payload)\<close> with whether the call returned (\<open>True\<close>) or threw.
\<close>

datatype level = LDebug | LInfo | LWarn | LError

datatype effect =
    Log level string
  | Repo string
  | Emit (room: string) (event: string) (payload: json) (delivered: bool)

fun is_log :: "effect \<Rightarrow> bool" where
  "is_log (Log l m) = True"
| "is_log _ = False"

text \<open>
  The Socket.IO server, as far as the service uses it: \<open>t room event payload\<close> is \<open>True\<close>
  when the emit returns and \<open>False\<close> when it throws.
\<close>

type_synonym transport = "string \<Rightarrow> string \<Rightarrow> json \<Rightarrow> bool"

datatype error = Thrown string

text \<open>Rows of \<open>findMany\<close> with the \<open>select\<close> of \<open>getCurrentSnapshot\<close>.\<close>

record LeaderboardRow =
  lb_userId :: string
  lb_globalRank :: int
  lb_weeklyRank :: int
  lb_allTimePnl :: int
  lb_weeklyPnl :: int

text \<open>Rows of \<open>getGlobal\<close> and \<open>getWeekly\<close>, which include \<open>user.username\<close>.\<close>

record LeaderboardUserRow = LeaderboardRow +
  lb_username :: string

text \<open>
  What the outside world answers during one invocation of \<open>broadcastRankChanges\<close>: the
  clock readings of the \<open>Date.now()\<close> calls (at entry, in \<open>getCurrentSnapshot\<close>, in the
  public update, and for the achievement sent to a user under a type), and the results
  of the repository calls, \<open>Inl\<close> when the call rejects.
\<close>

record env =
  now :: int
  updateAllRanks :: "error + unit"
  findMany :: "error + LeaderboardRow list"
  snapshotNow :: int
  getGlobal :: "nat \<Rightarrow> nat \<Rightarrow> error + LeaderboardUserRow list"
  getWeekly :: "nat \<Rightarrow> nat \<Rightarrow> error + LeaderboardUserRow list"
  publicNow :: int
  achievementNow :: "string \<Rightarrow> string \<Rightarrow> int"

text \<open>
  The fields of the service object; \<open>broadcastTimer\<close> records whether a timer is set.
  \<open>start\<close> and \<open>stop\<close> set and clear the timer whose fires call
  \<open>broadcastRankChanges\<close>; the calls are what is modelled, not the timer.
\<close>

record state =
  io :: "transport option"
  broadcastTimer :: bool
  lastBroadcastTime :: int
  previousSnapshots :: Snapshot
  isBroadcasting :: bool

definition BROADCAST_INTERVAL_MS :: int where
  "BROADCAST_INTERVAL_MS = 5 * 60 * 1000"

definition MIN_BROADCAST_GAP_MS :: int where
  "MIN_BROADCAST_GAP_MS = 4 * 60 * 1000"

definition init_state :: state where
  "init_state = \<lparr> io = None, broadcastTimer = False, lastBroadcastTime = 0,
                  previousSnapshots = [], isBroadcasting = False \<rparr>"

definition initialize :: "transport \<Rightarrow> state \<Rightarrow> state" where
  "initialize t s = s\<lparr> io := Some t \<rparr>"

section \<open>Snapshot capture\<close>

text \<open>
  The loop over the rows is a fold, \<open>snapshot.set\<close> is \<open>AList.update\<close>. \<open>Number(...)\<close>
  of a stored PnL is the value itself here.
\<close>

definition getCurrentSnapshot :: "env \<Rightarrow> error + Snapshot" where
  "getCurrentSnapshot e =
     (case findMany e of
        Inl err \<Rightarrow> Inl err
      | Inr leaderboards \<Rightarrow>
          Inr (fold (\<lambda>lb snapshot.
                 AList.update (lb_userId lb)
                   \<lparr> userId = lb_userId lb,
                     globalRank = lb_globalRank lb,
                     weeklyRank = lb_weeklyRank lb,
                     allTimePnl = lb_allTimePnl lb,
                     weeklyPnl = lb_weeklyPnl lb,
                     timestamp = snapshotNow e \<rparr> snapshot)
               leaderboards []))"

section \<open>Private rank change notifications\<close>

definition user_room :: "string \<Rightarrow> string" where
  "user_room uid = ''user:'' @ uid"

definition rank_changed_payload :: "RankChangeEvent \<Rightarrow> json" where
  "rank_changed_payload change = JObj
     [(''type'', JStr ''rank_changed''),
      (''previousGlobalRank'', JNum (previousGlobalRank change)),
      (''currentGlobalRank'', JNum (currentGlobalRank change)),
      (''previousWeeklyRank'', JNum (previousWeeklyRank change)),
      (''currentWeeklyRank'', JNum (currentWeeklyRank change)),
      (''rankChange'', JNum (rankChange change)),
      (''improved'', JBool (rankChange change > 0)),
      (''timestamp'', JNum (ev_timestamp change))]"

text \<open>One pass of the loop body: the emit, then the log line of the try or of the catch.\<close>

definition send_rank_change :: "transport \<Rightarrow> RankChangeEvent \<Rightarrow> effect list" where
  "send_rank_change t change =
     (if t (user_room (ev_userId change)) ''rank_changed'' (rank_changed_payload change)
      then [Emit (user_room (ev_userId change)) ''rank_changed'' (rank_changed_payload change) True,
            Log LDebug ''Private rank change notification sent'']
      else [Emit (user_room (ev_userId change)) ''rank_changed'' (rank_changed_payload change) False,
            Log LError ''Failed to send private rank change notification''])"

fun broadcastPrivateRankChanges_loop :: "transport \<Rightarrow> RankChangeEvent list \<Rightarrow> effect list" where
  "broadcastPrivateRankChanges_loop t [] = []"
| "broadcastPrivateRankChanges_loop t (change # changes) =
     send_rank_change t change @ broadcastPrivateRankChanges_loop t changes"

definition broadcastPrivateRankChanges :: "transport option \<Rightarrow> RankChangeEvent list \<Rightarrow> effect list" where
  "broadcastPrivateRankChanges sock changes =
     (case sock of
        None \<Rightarrow> [Log LWarn ''Socket.IO not initialized, skipping private broadcasts'']
      | Some t \<Rightarrow> broadcastPrivateRankChanges_loop t changes)"

section \<open>Public leaderboard update\<close>

definition global_entry :: "LeaderboardUserRow \<Rightarrow> json" where
  "global_entry lb = JObj
     [(''userId'', JStr (lb_userId lb)),
      (''username'', JStr (lb_username lb)),
      (''rank'', JNum (lb_globalRank lb)),
      (''pnl'', JNum (lb_allTimePnl lb))]"

definition weekly_entry :: "LeaderboardUserRow \<Rightarrow> json" where
  "weekly_entry lb = JObj
     [(''userId'', JStr (lb_userId lb)),
      (''username'', JStr (lb_username lb)),
      (''rank'', JNum (lb_weeklyRank lb)),
      (''pnl'', JNum (lb_weeklyPnl lb))]"

definition leaderboard_event :: "env \<Rightarrow> LeaderboardUserRow list \<Rightarrow> LeaderboardUserRow list \<Rightarrow> json" where
  "leaderboard_event e topGlobal topWeekly = JObj
     [(''type'', JStr ''leaderboard_updated''),
      (''topGlobal'', JArr (map global_entry topGlobal)),
      (''topWeekly'', JArr (map weekly_entry topWeekly)),
      (''timestamp'', JNum (publicNow e))]"

definition broadcastPublicLeaderboardUpdate :: "transport option \<Rightarrow> env \<Rightarrow> effect list" where
  "broadcastPublicLeaderboardUpdate sock e =
     (case sock of
        None \<Rightarrow> [Log LWarn ''Socket.IO not initialized, skipping public broadcast'']
      | Some t \<Rightarrow>
          (case getGlobal e 10 0 of
             Inl err \<Rightarrow>
               [Repo ''getGlobal'',
                Log LError ''Failed to broadcast public leaderboard update'']
           | Inr topGlobal \<Rightarrow>
               (case getWeekly e 10 0 of
                  Inl err \<Rightarrow>
                    [Repo ''getGlobal'', Repo ''getWeekly'',
                     Log LError ''Failed to broadcast public leaderboard update'']
                | Inr topWeekly \<Rightarrow>
                    (if t ''leaderboard:global'' ''leaderboard_updated''
                          (leaderboard_event e topGlobal topWeekly)
                     then [Repo ''getGlobal'', Repo ''getWeekly'',
                           Emit ''leaderboard:global'' ''leaderboard_updated''
                             (leaderboard_event e topGlobal topWeekly) True,
                           Log LInfo ''Public leaderboard update broadcast'']
                     else [Repo ''getGlobal'', Repo ''getWeekly'',
                           Emit ''leaderboard:global'' ''leaderboard_updated''
                             (leaderboard_event e topGlobal topWeekly) False,
                           Log LError ''Failed to broadcast public leaderboard update'']))))"

section \<open>Achievements\<close>

text \<open>A number in a template literal: the decimal digits, with a minus sign below zero.\<close>

definition digit :: "nat \<Rightarrow> char" where
  "digit n = ''0123456789'' ! n"

function string_of_nat :: "nat \<Rightarrow> string" where
  "string_of_nat n =
     (if n < 10 then [digit n] else string_of_nat (n div 10) @ [digit (n mod 10)])"
  by pat_completeness auto
termination
  by (relation "measure (\<lambda>n. n)") auto

declare string_of_nat.simps [simp del]

definition number_toString :: "int \<Rightarrow> string" where
  "number_toString i =
     (if i < 0 then CHR ''-'' # string_of_nat (nat (- i)) else string_of_nat (nat i))"

record Achievement =
  a_type :: string
  a_title :: string
  a_description :: string

definition detectAchievements :: "RankChangeEvent \<Rightarrow> Achievement list" where
  "detectAchievements change =
     (let achievements = [];
          achievements =
            (if currentGlobalRank change \<le> 10 \<and> previousGlobalRank change > 10
             then achievements @
               [\<lparr> a_type = ''top_10_global'',
                  a_title = ''Top 10 Predictor!'',
                  a_description = ''You'' @ [CHR 0x27] @ ''ve reached rank #''
                    @ number_toString (currentGlobalRank change)
                    @ '' on the global leaderboard!'' \<rparr>]
             else achievements);
          achievements =
            (if currentGlobalRank change \<le> 100 \<and> previousGlobalRank change > 100
             then achievements @
               [\<lparr> a_type = ''top_100_global'',
                  a_title = ''Top 100 Predictor!'',
                  a_description = ''You'' @ [CHR 0x27] @ ''ve entered the top 100 at rank #''
                    @ number_toString (currentGlobalRank change) @ ''!'' \<rparr>]
             else achievements);
          achievements =
            (if rankChange change \<ge> 50
             then achievements @
               [\<lparr> a_type = ''big_climb'',
                  a_title = ''Rising Star!'',
                  a_description = ''You'' @ [CHR 0x27] @ ''ve climbed ''
                    @ number_toString (rankChange change) @ '' ranks! Keep it up!'' \<rparr>]
             else achievements);
          achievements =
            (if currentWeeklyRank change = 1 \<and> previousWeeklyRank change \<noteq> 1
             then achievements @
               [\<lparr> a_type = ''weekly_leader'',
                  a_title = ''Weekly Champion!'',
                  a_description = ''You'' @ [CHR 0x27] @ ''re #1 on the weekly leaderboard!'' \<rparr>]
             else achievements)
      in achievements)"

definition achievement_payload :: "env \<Rightarrow> RankChangeEvent \<Rightarrow> Achievement \<Rightarrow> json" where
  "achievement_payload e change achievement = JObj
     [(''type'', JStr ''achievement_earned''),
      (''achievementType'', JStr (a_type achievement)),
      (''title'', JStr (a_title achievement)),
      (''description'', JStr (a_description achievement)),
      (''timestamp'', JNum (achievementNow e (ev_userId change) (a_type achievement)))]"

text \<open>
  The inner loop over the achievements of one change. It runs inside the \<open>try\<close> of the
  outer loop body: an emit that throws ends it, and the \<open>catch\<close> writes its log line.
\<close>

fun send_achievements :: "transport \<Rightarrow> env \<Rightarrow> RankChangeEvent \<Rightarrow> Achievement list \<Rightarrow> effect list" where
  "send_achievements t e change [] = []"
| "send_achievements t e change (achievement # achievements) =
     (if t (user_room (ev_userId change)) ''achievement_earned''
           (achievement_payload e change achievement)
      then Emit (user_room (ev_userId change)) ''achievement_earned''
             (achievement_payload e change achievement) True
           # Log LInfo ''Achievement notification sent''
           # send_achievements t e change achievements
      else [Emit (user_room (ev_userId change)) ''achievement_earned''
              (achievement_payload e change achievement) False,
            Log LError ''Failed to broadcast achievement''])"

fun broadcastAchievements_loop :: "transport \<Rightarrow> env \<Rightarrow> RankChangeEvent list \<Rightarrow> effect list" where
  "broadcastAchievements_loop t e [] = []"
| "broadcastAchievements_loop t e (change # changes) =
     send_achievements t e change (detectAchievements change)
       @ broadcastAchievements_loop t e changes"

definition broadcastAchievements :: "transport option \<Rightarrow> env \<Rightarrow> RankChangeEvent list \<Rightarrow> effect list" where
  "broadcastAchievements sock e changes =
     (case sock of
        None \<Rightarrow> []
      | Some t \<Rightarrow> broadcastAchievements_loop t e changes)"

section \<open>The broadcast cycle\<close>

text \<open>
  The \<open>try\<close> block of \<open>broadcastRankChanges\<close>, steps 1 to 7: the effects so far, and
  either the error that left the block or the state after step 7.
\<close>

definition cycle_steps :: "env \<Rightarrow> state \<Rightarrow> effect list \<times> (error + state)" where
  "cycle_steps e s =
     (case updateAllRanks e of
        Inl err \<Rightarrow>
          ([Log LInfo ''Starting leaderboard rank change broadcast'',
            Repo ''updateAllRanks''], Inl err)
      | Inr u \<Rightarrow>
          (case getCurrentSnapshot e of
             Inl err \<Rightarrow>
               ([Log LInfo ''Starting leaderboard rank change broadcast'',
                 Repo ''updateAllRanks'', Repo ''findMany''], Inl err)
           | Inr currentSnapshot \<Rightarrow>
               (let rankChanges = detectRankChanges (previousSnapshots s) currentSnapshot
                in ([Log LInfo ''Starting leaderboard rank change broadcast'',
                     Repo ''updateAllRanks'', Repo ''findMany'']
                    @ broadcastPrivateRankChanges (io s) rankChanges
                    @ broadcastPublicLeaderboardUpdate (io s) e
                    @ broadcastAchievements (io s) e rankChanges
                    @ [Log LInfo ''Leaderboard broadcast completed successfully''],
                    Inr (s\<lparr> previousSnapshots := currentSnapshot,
                            lastBroadcastTime := now e \<rparr>)))))"

text \<open>The \<open>try\<close> block with its \<open>catch\<close> and \<open>finally\<close>.\<close>

definition cycle_body :: "env \<Rightarrow> state \<Rightarrow> state \<times> effect list" where
  "cycle_body e s =
     (case cycle_steps e s of
        (effects, Inl err) \<Rightarrow>
          (s\<lparr> isBroadcasting := False \<rparr>,
           effects @ [Log LError ''Leaderboard broadcast failed''])
      | (effects, Inr s') \<Rightarrow> (s'\<lparr> isBroadcasting := False \<rparr>, effects))"

text \<open>
  The two gates and the setting of the flag, lines 113 to 130. The function runs them
  without interruption, since its first \<open>await\<close> comes after them. \<open>True\<close> when the
  cycle is started.
\<close>

definition cycle_entry :: "env \<Rightarrow> state \<Rightarrow> bool \<times> state \<times> effect list" where
  "cycle_entry e s =
     (let timeSinceLastBroadcast = now e - lastBroadcastTime s
      in if timeSinceLastBroadcast < MIN_BROADCAST_GAP_MS
         then (False, s, [Log LDebug ''Skipping broadcast - too soon since last broadcast''])
         else if isBroadcasting s
         then (False, s, [Log LDebug ''Skipping broadcast - already in progress''])
         else (True, s\<lparr> isBroadcasting := True \<rparr>, []))"

text \<open>One invocation that runs to its end before anything else happens.\<close>

definition broadcastRankChanges :: "env \<Rightarrow> state \<Rightarrow> state \<times> effect list" where
  "broadcastRankChanges e s =
     (case cycle_entry e s of
        (False, s', effects) \<Rightarrow> (s', effects)
      | (True, s', effects) \<Rightarrow>
          (case cycle_body e s' of (s'', effects') \<Rightarrow> (s'', effects @ effects')))"

text \<open>\<open>True\<close> when the invocation passes both gates, that is, executes a cycle.\<close>

definition executes_cycle :: "env \<Rightarrow> state \<Rightarrow> bool" where
  "executes_cycle e s = fst (cycle_entry e s)"

definition getStatus :: "state \<Rightarrow> bool \<times> bool \<times> int \<times> nat" where
  "getStatus s = (broadcastTimer s, isBroadcasting s, lastBroadcastTime s,
                  length (previousSnapshots s))"

section \<open>Overlapping invocations\<close>

text \<open>
  JavaScript runs each piece of an \<open>async\<close> function between two \<open>await\<close>s without
  interruption. An invocation is therefore two steps: its entry (the gates and the flag),
  and, when it started a cycle, the rest of the cycle, which may come after any number of
  other steps. A configuration is the state of the service with the cycles in flight.
  The state a cycle reads and writes in its steps 3 to 7 is taken at its completion.
\<close>

inductive reachable :: "state \<times> env list \<Rightarrow> bool" where
  start: "reachable (init_state, [])"
| bind: "reachable (s, inflight) \<Longrightarrow> reachable (initialize t s, inflight)"
| skip: "reachable (s, inflight) \<Longrightarrow> cycle_entry e s = (False, s', effects) \<Longrightarrow>
           reachable (s', inflight)"
| enter: "reachable (s, inflight) \<Longrightarrow> cycle_entry e s = (True, s', effects) \<Longrightarrow>
           reachable (s', e # inflight)"
| finish: "reachable (s, inflight) \<Longrightarrow> e \<in> set inflight \<Longrightarrow>
           reachable (fst (cycle_body e s), remove1 e inflight)"

section \<open>Observing traces and runs\<close>

text \<open>The emits of a trace in order, as room, event and payload, delivered or not.\<close>

fun attempts :: "effect list \<Rightarrow> (string \<times> string \<times> json) list" where
  "attempts [] = []"
| "attempts (Emit r ev p d # xs) = (r, ev, p) # attempts xs"
| "attempts (x # xs) = attempts xs"

definition emit_rooms :: "effect list \<Rightarrow> string list" where
  "emit_rooms xs = map fst (attempts xs)"

text \<open>The elements of the array under a field of a payload.\<close>

definition entries_of :: "string \<Rightarrow> json \<Rightarrow> json list" where
  "entries_of k p = (case lookup_field k p of Some v \<Rightarrow> elements v | None \<Rightarrow> [])"

text \<open>
  Modelled from the spec: \<open>LeaderboardRepository.getGlobal(limit, offset)\<close> and
  \<open>getWeekly(limit, offset)\<close> are not among the sources. The spec gives them as
  \<open>topGlobal(limit, offset)\<close> and \<open>topWeekly(limit, offset)\<close> returning ordered rows, and
  the public update as sequences of length at most N: a repository that honours its limit
  answers the two calls of the public update with at most 10 rows each.
\<close>

definition honours_limit :: "env \<Rightarrow> bool" where
  "honours_limit e =
     ((case getGlobal e 10 0 of Inr rows \<Rightarrow> length rows \<le> 10 | Inl err \<Rightarrow> True) \<and>
      (case getWeekly e 10 0 of Inr rows \<Rightarrow> length rows \<le> 10 | Inl err \<Rightarrow> True))"

text \<open>The payloads that a trace emits to the shared room \<^verbatim>\<open>leaderboard:global\<close>.\<close>

definition public_payloads :: "effect list \<Rightarrow> json list" where
  "public_payloads xs =
     map (\<lambda>a. snd (snd a)) (filter (\<lambda>a. fst a = ''leaderboard:global'') (attempts xs))"

text \<open>An entry with no field other than display name, rank and PnL.\<close>

definition name_rank_pnl_only :: "json \<Rightarrow> bool" where
  "name_rank_pnl_only x = (set (own_fields x) \<subseteq> {''username'', ''rank'', ''pnl''})"

text \<open>
  \<open>True\<close> when the invocation executes a cycle that reaches the end of its \<open>try\<close> block.
\<close>

definition completes_cycle :: "env \<Rightarrow> state \<Rightarrow> bool" where
  "completes_cycle e s =
     (executes_cycle e s \<and>
      (case snd (cycle_steps e (s\<lparr> isBroadcasting := True \<rparr>)) of
         Inl err \<Rightarrow> False | Inr s' \<Rightarrow> True))"

text \<open>
  Invocations one after the other, each running to its end: how many of them execute a
  cycle, and how many complete one.
\<close>

fun cycles_executed :: "env list \<Rightarrow> state \<Rightarrow> nat" where
  "cycles_executed [] s = 0"
| "cycles_executed (e # es) s =
     (if executes_cycle e s then 1 else 0) + cycles_executed es (fst (broadcastRankChanges e s))"

fun cycles_completed :: "env list \<Rightarrow> state \<Rightarrow> nat" where
  "cycles_completed [] s = 0"
| "cycles_completed (e # es) s =
     (if completes_cycle e s then 1 else 0) + cycles_completed es (fst (broadcastRankChanges e s))"

section \<open>Scenarios\<close>

text \<open>
  Two consecutive snapshots. Between them U1 climbs from global rank 12 to 8, U2 from 200
  to 140, U3 keeps both ranks, U4 changes its weekly rank only, U6 drops four global ranks
  and becomes weekly leader; U5 is new in the second snapshot.
\<close>

definition entry :: "string \<Rightarrow> int \<Rightarrow> int \<Rightarrow> string \<times> RankSnapshot" where
  "entry uid g w =
     (uid, \<lparr> userId = uid, globalRank = g, weeklyRank = w, allTimePnl = 0, weeklyPnl = 0,
             timestamp = 0 \<rparr>)"

definition prev_ex :: Snapshot where
  "prev_ex = [entry ''U1'' 12 3, entry ''U2'' 200 7, entry ''U3'' 5 5, entry ''U4'' 30 9,
              entry ''U6'' 20 3]"

definition cur_ex :: Snapshot where
  "cur_ex = [entry ''U1'' 8 4, entry ''U2'' 140 7, entry ''U3'' 5 5, entry ''U4'' 30 2,
             entry ''U5'' 2 6, entry ''U6'' 24 1]"

definition all_delivered :: transport where
  "all_delivered r ev p = True"

definition rows_ex :: "LeaderboardRow list" where
  "rows_ex = map (\<lambda>(uid, r). \<lparr> lb_userId = uid, lb_globalRank = globalRank r,
       lb_weeklyRank = weeklyRank r, lb_allTimePnl = allTimePnl r, lb_weeklyPnl = weeklyPnl r \<rparr>)
     cur_ex"

definition top_ex :: "LeaderboardUserRow list" where
  "top_ex = [\<lparr> lb_userId = ''U5'', lb_globalRank = 2, lb_weeklyRank = 6, lb_allTimePnl = 70,
               lb_weeklyPnl = 3, lb_username = ''eve'' \<rparr>,
             \<lparr> lb_userId = ''U3'', lb_globalRank = 5, lb_weeklyRank = 5, lb_allTimePnl = 40,
               lb_weeklyPnl = 4, lb_username = ''carol'' \<rparr>]"

definition env_ok :: env where
  "env_ok = \<lparr> now = 1000000, updateAllRanks = Inr (), findMany = Inr rows_ex,
              snapshotNow = 1000001,
              getGlobal = (\<lambda>limit offset. Inr (take limit (drop offset top_ex))),
              getWeekly = (\<lambda>limit offset. Inr (take limit (drop offset (rev top_ex)))),
              publicNow = 1000002, achievementNow = (\<lambda>uid kind. 1000003) \<rparr>"

text \<open>The event of the first scenario: U1 from global rank 12 to 8.\<close>

definition change_U1 :: RankChangeEvent where
  "change_U1 = \<lparr> ev_type = ''rank_changed'', ev_userId = ''U1'',
                 previousGlobalRank = 12, currentGlobalRank = 8,
                 previousWeeklyRank = 3, currentWeeklyRank = 4,
                 rankChange = 4, ev_timestamp = 0 \<rparr>"

text \<open>A transport whose emits to the room of one user throw.\<close>

definition fails_for :: "string \<Rightarrow> transport" where
  "fails_for uid r ev p = (r \<noteq> user_room uid)"

text \<open>The service with that transport bound, holding the first snapshot of the scenario.\<close>

definition state_ex :: state where
  "state_ex = \<lparr> io = Some (fails_for ''U2''), broadcastTimer = True, lastBroadcastTime = 0,
                previousSnapshots = prev_ex, isBroadcasting = False \<rparr>"

text \<open>The snapshot that \<open>getCurrentSnapshot\<close> builds from the rows of \<open>env_ok\<close>.\<close>

definition snapshot_ok :: Snapshot where
  "snapshot_ok = map (\<lambda>(uid, r). (uid, r\<lparr> timestamp := 1000001 \<rparr>)) cur_ex"

text \<open>The recompute rejects; and an invocation one millisecond later, where it succeeds.\<close>

definition env_fail :: env where
  "env_fail = env_ok\<lparr> updateAllRanks := Inl (Thrown ''connection lost'') \<rparr>"

definition env_retry :: env where
  "env_retry = env_ok\<lparr> now := 1000001 \<rparr>"

text \<open>The top-10 query of the public update rejects.\<close>

definition env_top_fails :: env where
  "env_top_fails = env_ok\<lparr> getGlobal := (\<lambda>limit offset. Inl (Thrown ''query failed'')) \<rparr>"

text \<open>An invocation five minutes after \<open>env_ok\<close>.\<close>

definition env_late :: env where
  "env_late = env_ok\<lparr> now := 1300000 \<rparr>"

text \<open>The service while its first cycle is in flight.\<close>

definition state_inflight :: state where
  "state_inflight = init_state\<lparr> isBroadcasting := True \<rparr>"

text \<open>The service after \<open>initialize\<close>, before its first cycle.\<close>

definition state_bound :: state where
  "state_bound = initialize all_delivered init_state"

section \<open>Properties of the sort\<close>

lemma insert_cmp_by_magnitude:
  "insert_cmp by_magnitude x xs = insort_key (\<lambda>e. - \<bar>rankChange e\<bar>) x xs"
  by (induction xs) (auto simp: by_magnitude_def)

lemma array_sort_by_magnitude:
  "array_sort by_magnitude xs = sort_key (\<lambda>e. - \<bar>rankChange e\<bar>) xs"
  by (induction xs) (simp_all add: insert_cmp_by_magnitude)

lemma set_detectRankChanges:
  "set (detectRankChanges prev cur) = set (detectRankChanges_loop prev cur)"
  by (simp add: detectRankChanges_def array_sort_by_magnitude)

lemma sorted_desc_magnitude:
  "sorted_wrt (\<lambda>a b. \<bar>rankChange a\<bar> \<ge> \<bar>rankChange b\<bar>) (array_sort by_magnitude xs)"
proof -
  have "sorted (map (\<lambda>e. - \<bar>rankChange e\<bar>) (sort_key (\<lambda>e. - \<bar>rankChange e\<bar>) xs))"
    by (rule sorted_sort_key)
  then show ?thesis
    by (simp add: array_sort_by_magnitude sorted_map)
qed

lemma stable_magnitude:
  "filter (\<lambda>e. \<bar>rankChange e\<bar> = k) (array_sort by_magnitude xs)
     = filter (\<lambda>e. \<bar>rankChange e\<bar> = k) xs"
proof -
  have "filter (\<lambda>e. - \<bar>rankChange e\<bar> = - k) (sort_key (\<lambda>e. - \<bar>rankChange e\<bar>) xs)
          = filter (\<lambda>e. - \<bar>rankChange e\<bar> = - k) xs"
    by (rule sort_key_stable)
  then show ?thesis
    by (simp add: array_sort_by_magnitude)
qed

section \<open>Properties of the loop\<close>

lemma loop_userIds_subseq:
  "subseq (map ev_userId (detectRankChanges_loop prev cur)) (map fst cur)"
proof (induction cur)
  case Nil
  show ?case by simp
next
  case (Cons a cur)
  obtain uid c where a: "a = (uid, c)" by (cases a)
  show ?case using Cons unfolding a
    by (auto simp: Let_def split: option.splits)
qed

lemma loop_event_origin:
  "e \<in> set (detectRankChanges_loop prev cur) \<Longrightarrow>
     \<exists>c p. (ev_userId e, c) \<in> set cur \<and> map_of prev (ev_userId e) = Some p
        \<and> (globalRank c \<noteq> globalRank p \<or> weeklyRank c \<noteq> weeklyRank p)
        \<and> rankChange e = globalRank p - globalRank c"
proof (induction cur)
  case Nil
  then show ?case by simp
next
  case (Cons a cur)
  obtain uid c where a: "a = (uid, c)" by (cases a)
  show ?case using Cons unfolding a
    by (fastforce simp: Let_def split: option.splits if_splits)
qed

lemma user_room_inj: "user_room a = user_room b \<longleftrightarrow> a = b"
  by (simp add: user_room_def)

lemma loop_event_of_entry:
  "(u, c) \<in> set cur \<Longrightarrow> map_of prev u = Some p \<Longrightarrow>
   globalRank c \<noteq> globalRank p \<or> weeklyRank c \<noteq> weeklyRank p \<Longrightarrow>
   \<lparr> ev_type = ''rank_changed'', ev_userId = u,
     previousGlobalRank = globalRank p, currentGlobalRank = globalRank c,
     previousWeeklyRank = weeklyRank p, currentWeeklyRank = weeklyRank c,
     rankChange = globalRank p - globalRank c, ev_timestamp = timestamp c \<rparr>
     \<in> set (detectRankChanges_loop prev cur)"
proof (induction cur)
  case Nil
  then show ?case by simp
next
  case (Cons a cur)
  obtain uid c' where a: "a = (uid, c')" by (cases a)
  show ?case using Cons unfolding a
    by (auto simp: Let_def split: option.splits)
qed

lemma wf_entry_unique:
  "wf_snapshot cur \<Longrightarrow> map_of cur u = Some c \<Longrightarrow> (u, c') \<in> set cur \<Longrightarrow> c' = c"
  by (simp add: wf_snapshot_def)

lemma no_event_when_ranks_equal:
  assumes "wf_snapshot cur" "map_of prev u = Some p" "map_of cur u = Some c"
    "globalRank c = globalRank p" "weeklyRank c = weeklyRank p"
    "e \<in> set (detectRankChanges prev cur)"
  shows "ev_userId e \<noteq> u"
proof
  assume u: "ev_userId e = u"
  from assms(6) have "e \<in> set (detectRankChanges_loop prev cur)"
    by (simp add: set_detectRankChanges)
  from loop_event_origin[OF this] u obtain c' p' where
    h: "(u, c') \<in> set cur" "map_of prev u = Some p'"
       "globalRank c' \<noteq> globalRank p' \<or> weeklyRank c' \<noteq> weeklyRank p'"
    by auto
  from wf_entry_unique[OF assms(1,3) h(1)] have "c' = c" .
  moreover from h(2) assms(2) have "p' = p" by simp
  ultimately show False using h(3) assms(4,5) by simp
qed

lemma diff_self_loop_empty:
  assumes "wf_snapshot S"
  shows "detectRankChanges_loop S S = []"
proof (rule ccontr)
  assume "detectRankChanges_loop S S \<noteq> []"
  then obtain e where e: "e \<in> set (detectRankChanges_loop S S)"
    by (cases "detectRankChanges_loop S S") auto
  from loop_event_origin[OF e] obtain c p where
    h: "(ev_userId e, c) \<in> set S" "map_of S (ev_userId e) = Some p"
       "globalRank c \<noteq> globalRank p \<or> weeklyRank c \<noteq> weeklyRank p"
    by auto
  from wf_entry_unique[OF assms h(2) h(1)] have "c = p" .
  with h(3) show False by simp
qed

section \<open>Unchanged users\<close>

text \<open>
  C7. Comparing a snapshot with itself gives no event. More generally, a user whose entry
  in the current snapshot has the global and the weekly rank of the entry in the previous
  snapshot gets no event. Snapshots are JavaScript maps: each key occurs once.
\<close>

theorem diff_unchanged_no_event:
  "(wf_snapshot S \<longrightarrow> detectRankChanges S S = []) \<and>
   (wf_snapshot cur \<and> map_of prev u = Some p \<and> map_of cur u = Some c \<and>
      globalRank c = globalRank p \<and> weeklyRank c = weeklyRank p
    \<longrightarrow> (\<forall>e \<in> set (detectRankChanges prev cur). ev_userId e \<noteq> u))"
proof (intro conjI impI ballI)
  assume "wf_snapshot S"
  then show "detectRankChanges S S = []"
    by (simp add: detectRankChanges_def diff_self_loop_empty)
next
  fix e
  assume h: "wf_snapshot cur \<and> map_of prev u = Some p \<and> map_of cur u = Some c \<and>
      globalRank c = globalRank p \<and> weeklyRank c = weeklyRank p"
    and e: "e \<in> set (detectRankChanges prev cur)"
  from h e show "ev_userId e \<noteq> u"
    by (intro no_event_when_ranks_equal[of cur prev u p c e]) simp_all
qed

theorem diff_unchanged_no_event_witness:
  "wf_snapshot cur_ex \<and> detectRankChanges cur_ex cur_ex = [] \<and>
   map_of prev_ex ''U3'' = Some (snd (entry ''U3'' 5 5)) \<and>
   map_of cur_ex ''U3'' = Some (snd (entry ''U3'' 5 5)) \<and>
   ''U3'' \<notin> set (map ev_userId (detectRankChanges prev_ex cur_ex)) \<and>
   map ev_userId (detectRankChanges prev_ex cur_ex) = [''U2'', ''U1'', ''U6'', ''U4'']"
  using diff_unchanged_no_event [of cur_ex cur_ex prev_ex "''U3''" "snd (entry ''U3'' 5 5)"
      "snd (entry ''U3'' 5 5)"]
  by (simp add: wf_snapshot_def detectRankChanges_def prev_ex_def cur_ex_def entry_def
      by_magnitude_def)

lemma attempts_append: "attempts (xs @ ys) = attempts xs @ attempts ys"
  by (induction xs rule: attempts.induct) simp_all

lemma attempts_send_rank_change:
  "attempts (send_rank_change t c) =
     [(user_room (ev_userId c), ''rank_changed'', rank_changed_payload c)]"
  by (simp add: send_rank_change_def)

lemma attempts_private_loop:
  "attempts (broadcastPrivateRankChanges_loop t changes) =
     map (\<lambda>c. (user_room (ev_userId c), ''rank_changed'', rank_changed_payload c)) changes"
  by (induction changes) (simp_all add: attempts_append attempts_send_rank_change)

lemma attempts_send_achievements:
  "set (attempts (send_achievements t e c as)) \<subseteq>
     (\<lambda>a. (user_room (ev_userId c), ''achievement_earned'', achievement_payload e c a)) ` set as"
  by (induction as) auto

lemma rooms_send_achievements:
  "set (emit_rooms (send_achievements t e c as)) \<subseteq> {user_room (ev_userId c)}"
  using attempts_send_achievements[of t e c as]
  by (auto simp: emit_rooms_def)

lemma rooms_achievements_loop:
  "set (emit_rooms (broadcastAchievements_loop t e changes))
     \<subseteq> user_room ` ev_userId ` set changes"
proof (induction changes)
  case Nil
  show ?case by (simp add: emit_rooms_def)
next
  case (Cons c changes)
  have "set (emit_rooms (send_achievements t e c (detectAchievements c)))
          \<subseteq> {user_room (ev_userId c)}"
    by (rule rooms_send_achievements)
  moreover have "emit_rooms (broadcastAchievements_loop t e (c # changes))
      = emit_rooms (send_achievements t e c (detectAchievements c))
        @ emit_rooms (broadcastAchievements_loop t e changes)"
    by (simp add: emit_rooms_def attempts_append)
  ultimately show ?case using Cons
    by auto
qed

lemma rooms_broadcastAchievements:
  "set (emit_rooms (broadcastAchievements sock e changes))
     \<subseteq> user_room ` ev_userId ` set changes"
proof (cases sock)
  case None
  then show ?thesis by (simp add: broadcastAchievements_def emit_rooms_def)
next
  case (Some t)
  then show ?thesis using rooms_achievements_loop[of t e changes]
    by (simp add: broadcastAchievements_def)
qed

lemma rooms_broadcastPrivate:
  "set (emit_rooms (broadcastPrivateRankChanges sock changes))
     \<subseteq> user_room ` ev_userId ` set changes"
proof (cases sock)
  case None
  then show ?thesis by (simp add: broadcastPrivateRankChanges_def emit_rooms_def)
next
  case (Some t)
  have "emit_rooms (broadcastPrivateRankChanges_loop t changes)
          = map (\<lambda>c. user_room (ev_userId c)) changes"
    by (simp add: emit_rooms_def attempts_private_loop comp_def)
  with Some show ?thesis
    by (auto simp: broadcastPrivateRankChanges_def)
qed

lemma no_event_for_new_user:
  assumes "map_of prev u = None" "e \<in> set (detectRankChanges prev cur)"
  shows "ev_userId e \<noteq> u"
proof
  assume u: "ev_userId e = u"
  from assms(2) have "e \<in> set (detectRankChanges_loop prev cur)"
    by (simp add: set_detectRankChanges)
  from loop_event_origin[OF this] u assms(1) show False by auto
qed

lemma no_room_without_event:
  assumes "u \<notin> ev_userId ` set changes"
  shows "user_room u \<notin> user_room ` ev_userId ` set changes"
proof
  assume "user_room u \<in> user_room ` ev_userId ` set changes"
  then obtain c where "c \<in> set changes" "user_room u = user_room (ev_userId c)"
    by auto
  with assms show False by (simp add: user_room_def)
qed

section \<open>New users\<close>

text \<open>
  C8. A user who is in the current snapshot and not in the previous one gets no rank
  change event: no event of the result carries the user, and neither the private rank
  change fan-out nor the achievement fan-out emits to the user's room.
\<close>

theorem new_user_no_event:
  "map_of prev u = None \<Longrightarrow>
     u \<notin> set (map ev_userId (detectRankChanges prev cur)) \<and>
     user_room u \<notin> set (emit_rooms (broadcastPrivateRankChanges sock (detectRankChanges prev cur))) \<and>
     user_room u \<notin> set (emit_rooms (broadcastAchievements sock e (detectRankChanges prev cur)))"
proof -
  assume n: "map_of prev u = None"
  have a: "u \<notin> ev_userId ` set (detectRankChanges prev cur)"
    using no_event_for_new_user[OF n] by blast
  have r: "user_room u \<notin> user_room ` ev_userId ` set (detectRankChanges prev cur)"
    by (rule no_room_without_event[OF a])
  have p: "user_room u \<notin> set (emit_rooms (broadcastPrivateRankChanges sock (detectRankChanges prev cur)))"
    using r rooms_broadcastPrivate[of sock "detectRankChanges prev cur"] by blast
  have q: "user_room u \<notin> set (emit_rooms (broadcastAchievements sock e (detectRankChanges prev cur)))"
    using r rooms_broadcastAchievements[of sock e "detectRankChanges prev cur"] by blast
  from a p q show ?thesis by simp
qed

theorem new_user_no_event_witness:
  "map_of prev_ex ''U5'' = None \<and> ''U5'' \<in> set (map fst cur_ex) \<and>
   ''U5'' \<notin> set (map ev_userId (detectRankChanges prev_ex cur_ex)) \<and>
   user_room ''U5'' \<notin> set (emit_rooms (broadcastPrivateRankChanges (Some all_delivered)
       (detectRankChanges prev_ex cur_ex))) \<and>
   user_room ''U5'' \<notin> set (emit_rooms (broadcastAchievements (Some all_delivered) env_ok
       (detectRankChanges prev_ex cur_ex)))"
proof -
  have h: "map_of prev_ex ''U5'' = None"
    by (simp add: prev_ex_def entry_def)
  have c: "''U5'' \<in> set (map fst cur_ex)"
    by (simp add: cur_ex_def entry_def)
  from new_user_no_event [OF h, of cur_ex "Some all_delivered" env_ok] h c
  show ?thesis by simp
qed

lemma payload_fields:
  "lookup_field ''rankChange'' (rank_changed_payload ev) = Some (JNum (rankChange ev))"
  "lookup_field ''improved'' (rank_changed_payload ev) = Some (JBool (rankChange ev > 0))"
  by (simp_all add: rank_changed_payload_def)

section \<open>Weekly-only changes\<close>

text \<open>
  C10. A user in both snapshots whose weekly rank changed and whose global rank did not
  gets a \<open>rank_changed\<close> event with \<open>rankChange = 0\<close>; its private payload has
  \<open>rankChange\<close> 0 and \<open>improved\<close> false, and the private fan-out emits it to the user's
  room.
\<close>

theorem weekly_only_change_zero_delta:
  "(u, c) \<in> set cur \<Longrightarrow> map_of prev u = Some p \<Longrightarrow> globalRank c = globalRank p \<Longrightarrow>
   weeklyRank c \<noteq> weeklyRank p \<Longrightarrow>
   \<exists>ev \<in> set (detectRankChanges prev cur).
      ev_userId ev = u \<and> ev_type ev = ''rank_changed'' \<and> rankChange ev = 0 \<and>
      lookup_field ''rankChange'' (rank_changed_payload ev) = Some (JNum 0) \<and>
      lookup_field ''improved'' (rank_changed_payload ev) = Some (JBool False) \<and>
      (user_room u, ''rank_changed'', rank_changed_payload ev)
        \<in> set (attempts (broadcastPrivateRankChanges (Some t) (detectRankChanges prev cur)))"
proof -
  assume h: "(u, c) \<in> set cur" "map_of prev u = Some p" "globalRank c = globalRank p"
    "weeklyRank c \<noteq> weeklyRank p"
  define ev where "ev = \<lparr> ev_type = ''rank_changed'', ev_userId = u,
     previousGlobalRank = globalRank p, currentGlobalRank = globalRank c,
     previousWeeklyRank = weeklyRank p, currentWeeklyRank = weeklyRank c,
     rankChange = globalRank p - globalRank c, ev_timestamp = timestamp c \<rparr>"
  have "ev \<in> set (detectRankChanges_loop prev cur)"
    unfolding ev_def using h(1,2,4) by (intro loop_event_of_entry) simp_all
  then have m: "ev \<in> set (detectRankChanges prev cur)"
    by (simp add: set_detectRankChanges)
  have z: "rankChange ev = 0" "ev_userId ev = u" "ev_type ev = ''rank_changed''"
    using h(3) by (simp_all add: ev_def)
  have a: "(user_room u, ''rank_changed'', rank_changed_payload ev)
        \<in> set (attempts (broadcastPrivateRankChanges (Some t) (detectRankChanges prev cur)))"
    using m z(2) by (force simp: broadcastPrivateRankChanges_def attempts_private_loop)
  from m z a show ?thesis
    by (intro bexI[of _ ev]) (simp_all add: payload_fields)
qed

theorem weekly_only_change_zero_delta_witness:
  "entry ''U4'' 30 2 \<in> set cur_ex \<and> map_of prev_ex ''U4'' = Some (snd (entry ''U4'' 30 9)) \<and>
   (\<exists>ev \<in> set (detectRankChanges prev_ex cur_ex).
      ev_userId ev = ''U4'' \<and> ev_type ev = ''rank_changed'' \<and> rankChange ev = 0 \<and>
      lookup_field ''rankChange'' (rank_changed_payload ev) = Some (JNum 0) \<and>
      lookup_field ''improved'' (rank_changed_payload ev) = Some (JBool False) \<and>
      (user_room ''U4'', ''rank_changed'', rank_changed_payload ev)
        \<in> set (attempts (broadcastPrivateRankChanges (Some all_delivered)
                   (detectRankChanges prev_ex cur_ex))))"
proof -
  have a: "(''U4'', snd (entry ''U4'' 30 2)) \<in> set cur_ex"
    by (simp add: cur_ex_def entry_def)
  have b: "map_of prev_ex ''U4'' = Some (snd (entry ''U4'' 30 9))"
    by (simp add: prev_ex_def entry_def)
  have g: "globalRank (snd (entry ''U4'' 30 2)) = globalRank (snd (entry ''U4'' 30 9))"
    "weeklyRank (snd (entry ''U4'' 30 2)) \<noteq> weeklyRank (snd (entry ''U4'' 30 9))"
    by (simp_all add: entry_def)
  have e: "entry ''U4'' 30 2 = (''U4'', snd (entry ''U4'' 30 2))"
    by (simp add: entry_def)
  from weekly_only_change_zero_delta [OF a b g, of all_delivered] a b e
  show ?thesis by simp
qed

section \<open>Order of the result\<close>

text \<open>
  C2. The result of \<open>detectRankChanges\<close> is sorted by descending \<open>|rankChange|\<close>. The
  events of one magnitude are, in this order, the events of that magnitude that the loop
  over the current snapshot produced, and their users follow the iteration order of the
  current snapshot. The result has the events of the loop, no more and no fewer. It is a
  function of the two maps with their iteration order, so equal inputs give equal
  sequences.
\<close>

theorem detectRankChanges_sorted_stable:
  "sorted_wrt (\<lambda>a b. \<bar>rankChange a\<bar> \<ge> \<bar>rankChange b\<bar>) (detectRankChanges prev cur) \<and>
   (\<forall>k. filter (\<lambda>e. \<bar>rankChange e\<bar> = k) (detectRankChanges prev cur)
          = filter (\<lambda>e. \<bar>rankChange e\<bar> = k) (detectRankChanges_loop prev cur)) \<and>
   (\<forall>k. subseq (map ev_userId (filter (\<lambda>e. \<bar>rankChange e\<bar> = k) (detectRankChanges prev cur)))
               (map fst cur)) \<and>
   set (detectRankChanges prev cur) = set (detectRankChanges_loop prev cur) \<and>
   length (detectRankChanges prev cur) = length (detectRankChanges_loop prev cur)"
proof (intro conjI allI)
  show "sorted_wrt (\<lambda>a b. \<bar>rankChange a\<bar> \<ge> \<bar>rankChange b\<bar>) (detectRankChanges prev cur)"
    unfolding detectRankChanges_def by (rule sorted_desc_magnitude)
next
  fix k
  show st: "filter (\<lambda>e. \<bar>rankChange e\<bar> = k) (detectRankChanges prev cur)
          = filter (\<lambda>e. \<bar>rankChange e\<bar> = k) (detectRankChanges_loop prev cur)"
    unfolding detectRankChanges_def by (rule stable_magnitude)
  have "subseq (map ev_userId (filter (\<lambda>e. \<bar>rankChange e\<bar> = k) (detectRankChanges_loop prev cur)))
          (map ev_userId (detectRankChanges_loop prev cur))"
    by (simp add: subseq_map)
  then show "subseq (map ev_userId (filter (\<lambda>e. \<bar>rankChange e\<bar> = k) (detectRankChanges prev cur)))
               (map fst cur)"
    unfolding st using loop_userIds_subseq[of prev cur] subseq_order.order_trans by blast
next
  show "set (detectRankChanges prev cur) = set (detectRankChanges_loop prev cur)"
    by (rule set_detectRankChanges)
next
  show "length (detectRankChanges prev cur) = length (detectRankChanges_loop prev cur)"
    by (simp add: detectRankChanges_def array_sort_by_magnitude)
qed

lemma types_detectAchievements:
  "map a_type (detectAchievements c) =
     (if currentGlobalRank c \<le> 10 \<and> previousGlobalRank c > 10 then [''top_10_global''] else [])
     @ (if currentGlobalRank c \<le> 100 \<and> previousGlobalRank c > 100 then [''top_100_global''] else [])
     @ (if rankChange c \<ge> 50 then [''big_climb''] else [])
     @ (if currentWeeklyRank c = 1 \<and> previousWeeklyRank c \<noteq> 1 then [''weekly_leader''] else [])"
  by (simp add: detectAchievements_def Let_def)

section \<open>Achievement rules\<close>

text \<open>
  C3. \<open>detectAchievements\<close> returns a notification of a kind exactly when the condition of
  the kind holds for the event: \<open>top_10_global\<close> when the current global rank is at most
  10 and the previous one above 10, \<open>top_100_global\<close> likewise with 100, \<open>big_climb\<close>
  when \<open>rankChange\<close> is at least 50, \<open>weekly_leader\<close> when the current weekly rank is 1
  and the previous one is not. It returns no other kind and none twice. A user whose two
  ranks are the same in two consecutive snapshots is sent no achievement.
\<close>

theorem detectAchievements_exact:
  "(''top_10_global'' \<in> set (map a_type (detectAchievements c))
      \<longleftrightarrow> currentGlobalRank c \<le> 10 \<and> previousGlobalRank c > 10) \<and>
   (''top_100_global'' \<in> set (map a_type (detectAchievements c))
      \<longleftrightarrow> currentGlobalRank c \<le> 100 \<and> previousGlobalRank c > 100) \<and>
   (''big_climb'' \<in> set (map a_type (detectAchievements c)) \<longleftrightarrow> rankChange c \<ge> 50) \<and>
   (''weekly_leader'' \<in> set (map a_type (detectAchievements c))
      \<longleftrightarrow> currentWeeklyRank c = 1 \<and> previousWeeklyRank c \<noteq> 1) \<and>
   set (map a_type (detectAchievements c))
      \<subseteq> {''top_10_global'', ''top_100_global'', ''big_climb'', ''weekly_leader''} \<and>
   distinct (map a_type (detectAchievements c)) \<and>
   (wf_snapshot cur \<and> map_of prev u = Some p \<and> map_of cur u = Some q \<and>
      globalRank q = globalRank p \<and> weeklyRank q = weeklyRank p
    \<longrightarrow> user_room u \<notin> set (emit_rooms (broadcastAchievements sock e (detectRankChanges prev cur))))"
proof (intro conjI impI)
  assume h: "wf_snapshot cur \<and> map_of prev u = Some p \<and> map_of cur u = Some q \<and>
      globalRank q = globalRank p \<and> weeklyRank q = weeklyRank p"
  have "u \<notin> ev_userId ` set (detectRankChanges prev cur)"
    using no_event_when_ranks_equal[of cur prev u p q] h by blast
  then have "user_room u \<notin> user_room ` ev_userId ` set (detectRankChanges prev cur)"
    by (rule no_room_without_event)
  then show "user_room u \<notin> set (emit_rooms (broadcastAchievements sock e (detectRankChanges prev cur)))"
    using rooms_broadcastAchievements[of sock e "detectRankChanges prev cur"] by blast
qed (auto simp add: types_detectAchievements)

theorem detectAchievements_exact_witness:
  "detectRankChanges [entry ''U1'' 12 3] [entry ''U1'' 8 4] = [change_U1] \<and>
   map a_type (detectAchievements change_U1) = [''top_10_global''] \<and>
   ''top_10_global'' \<in> set (map a_type (detectAchievements change_U1)) \<and>
   wf_snapshot cur_ex \<and> map_of prev_ex ''U3'' = Some (snd (entry ''U3'' 5 5)) \<and>
   map_of cur_ex ''U3'' = Some (snd (entry ''U3'' 5 5)) \<and>
   user_room ''U3'' \<notin> set (emit_rooms (broadcastAchievements (Some all_delivered) env_ok
       (detectRankChanges prev_ex cur_ex)))"
proof -
  have a: "detectRankChanges [entry ''U1'' 12 3] [entry ''U1'' 8 4] = [change_U1]"
    by (simp add: detectRankChanges_def entry_def change_U1_def)
  have b: "map a_type (detectAchievements change_U1) = [''top_10_global'']"
    by (simp add: types_detectAchievements change_U1_def)
  have c: "wf_snapshot cur_ex" "map_of prev_ex ''U3'' = Some (snd (entry ''U3'' 5 5))"
    "map_of cur_ex ''U3'' = Some (snd (entry ''U3'' 5 5))"
    by (simp_all add: wf_snapshot_def cur_ex_def prev_ex_def entry_def)
  from detectAchievements_exact [of change_U1 cur_ex prev_ex "''U3''" "snd (entry ''U3'' 5 5)"
      "snd (entry ''U3'' 5 5)" "Some all_delivered" env_ok] a b c
  show ?thesis by simp
qed

lemma entry_started:
  "executes_cycle e s \<Longrightarrow>
     cycle_entry e s = (True, s\<lparr> isBroadcasting := True \<rparr>, []) \<and> \<not> isBroadcasting s \<and>
     \<not> now e - lastBroadcastTime s < MIN_BROADCAST_GAP_MS"
  by (auto simp: executes_cycle_def cycle_entry_def Let_def split: if_splits)

lemma entry_skipped:
  "\<not> executes_cycle e s \<Longrightarrow>
     broadcastRankChanges e s =
       (s, [Log LDebug (if now e - lastBroadcastTime s < MIN_BROADCAST_GAP_MS
                        then ''Skipping broadcast - too soon since last broadcast''
                        else ''Skipping broadcast - already in progress'')])"
  by (auto simp: executes_cycle_def broadcastRankChanges_def cycle_entry_def Let_def
      split: if_splits)

lemma broadcast_started:
  "executes_cycle e s \<Longrightarrow>
     broadcastRankChanges e s = cycle_body e (s\<lparr> isBroadcasting := True \<rparr>)"
  by (auto simp: executes_cycle_def broadcastRankChanges_def cycle_entry_def Let_def
      split: if_splits prod.splits)

lemma cycle_body_recompute_fails:
  "updateAllRanks e = Inl err \<Longrightarrow>
     cycle_body e s =
       (s\<lparr> isBroadcasting := False \<rparr>,
        [Log LInfo ''Starting leaderboard rank change broadcast'', Repo ''updateAllRanks'',
         Log LError ''Leaderboard broadcast failed''])"
  by (simp add: cycle_body_def cycle_steps_def)

lemma cycle_body_query_fails:
  "updateAllRanks e = Inr u \<Longrightarrow> findMany e = Inl err \<Longrightarrow>
     cycle_body e s =
       (s\<lparr> isBroadcasting := False \<rparr>,
        [Log LInfo ''Starting leaderboard rank change broadcast'', Repo ''updateAllRanks'',
         Repo ''findMany'', Log LError ''Leaderboard broadcast failed''])"
  by (simp add: cycle_body_def cycle_steps_def getCurrentSnapshot_def)

lemma cycle_body_success:
  "updateAllRanks e = Inr u \<Longrightarrow> getCurrentSnapshot e = Inr snapshot \<Longrightarrow>
     cycle_body e s =
       (s\<lparr> previousSnapshots := snapshot, lastBroadcastTime := now e, isBroadcasting := False \<rparr>,
        [Log LInfo ''Starting leaderboard rank change broadcast'', Repo ''updateAllRanks'',
         Repo ''findMany'']
        @ broadcastPrivateRankChanges (io s) (detectRankChanges (previousSnapshots s) snapshot)
        @ broadcastPublicLeaderboardUpdate (io s) e
        @ broadcastAchievements (io s) e (detectRankChanges (previousSnapshots s) snapshot)
        @ [Log LInfo ''Leaderboard broadcast completed successfully''])"
  by (simp add: cycle_body_def cycle_steps_def Let_def)

lemma cycle_body_clears_flag: "\<not> isBroadcasting (fst (cycle_body e s))"
  by (simp add: cycle_body_def split: prod.splits sum.splits)

lemma getCurrentSnapshot_cases:
  "(\<exists>err. findMany e = Inl err \<and> getCurrentSnapshot e = Inl err) \<or>
   (\<exists>rows snapshot. findMany e = Inr rows \<and> getCurrentSnapshot e = Inr snapshot)"
  by (cases "findMany e") (simp_all add: getCurrentSnapshot_def)

lemma achievements_loop_append:
  "broadcastAchievements_loop t e (xs @ ys) =
     broadcastAchievements_loop t e xs @ broadcastAchievements_loop t e ys"
  by (induction xs) simp_all

lemma first_achievement_attempted:
  "as \<noteq> [] \<Longrightarrow>
     (user_room (ev_userId c), ''achievement_earned'', achievement_payload e c (hd as))
       \<in> set (attempts (send_achievements t e c as))"
  by (cases as) simp_all

lemma achievements_loop_attempts:
  "c \<in> set changes \<Longrightarrow> detectAchievements c \<noteq> [] \<Longrightarrow>
     (user_room (ev_userId c), ''achievement_earned'',
        achievement_payload e c (hd (detectAchievements c)))
       \<in> set (attempts (broadcastAchievements_loop t e changes))"
proof (induction changes)
  case Nil
  then show ?case by simp
next
  case (Cons x changes)
  show ?case
  proof (cases "c = x")
    case True
    with Cons.prems first_achievement_attempted[of "detectAchievements c" c e t]
    show ?thesis by (simp add: attempts_append)
  next
    case False
    with Cons show ?thesis by (simp add: attempts_append)
  qed
qed

section \<open>Failure isolation in the private fan-out\<close>

text \<open>
  C9. Whatever the transport does, the private fan-out attempts one emit for every rank
  change event of the batch, in order; the achievement fan-out of a batch is the fan-out
  of its first part followed by the fan-out of the rest, and attempts the first
  achievement of every event that has one. An emit that throws therefore stops nothing
  after it. The cycle is not aborted either: with a transport bound, when the recompute
  and the snapshot query succeed, the cycle ends with the new snapshot stored, the
  last-broadcast time set and the success log line.
\<close>

theorem fanout_failures_isolated:
  "attempts (broadcastPrivateRankChanges (Some t) changes)
     = map (\<lambda>c. (user_room (ev_userId c), ''rank_changed'', rank_changed_payload c)) changes \<and>
   broadcastAchievements (Some t) e (before @ after)
     = broadcastAchievements (Some t) e before @ broadcastAchievements (Some t) e after \<and>
   (\<forall>c \<in> set changes. detectAchievements c \<noteq> [] \<longrightarrow>
      (user_room (ev_userId c), ''achievement_earned'',
         achievement_payload e c (hd (detectAchievements c)))
        \<in> set (attempts (broadcastAchievements (Some t) e changes))) \<and>
   (io s = Some t \<and> executes_cycle e s \<and> updateAllRanks e = Inr u \<and>
      getCurrentSnapshot e = Inr snapshot
    \<longrightarrow> previousSnapshots (fst (broadcastRankChanges e s)) = snapshot \<and>
        lastBroadcastTime (fst (broadcastRankChanges e s)) = now e \<and>
        \<not> isBroadcasting (fst (broadcastRankChanges e s)) \<and>
        last (snd (broadcastRankChanges e s))
          = Log LInfo ''Leaderboard broadcast completed successfully'')"
proof (intro conjI ballI impI)
  show "attempts (broadcastPrivateRankChanges (Some t) changes)
     = map (\<lambda>c. (user_room (ev_userId c), ''rank_changed'', rank_changed_payload c)) changes"
    by (simp add: broadcastPrivateRankChanges_def attempts_private_loop)
next
  show "broadcastAchievements (Some t) e (before @ after)
     = broadcastAchievements (Some t) e before @ broadcastAchievements (Some t) e after"
    by (simp add: broadcastAchievements_def achievements_loop_append)
next
  fix c
  assume "c \<in> set changes" "detectAchievements c \<noteq> []"
  then show "(user_room (ev_userId c), ''achievement_earned'',
         achievement_payload e c (hd (detectAchievements c)))
        \<in> set (attempts (broadcastAchievements (Some t) e changes))"
    by (simp add: broadcastAchievements_def achievements_loop_attempts)
next
  assume h: "io s = Some t \<and> executes_cycle e s \<and> updateAllRanks e = Inr u \<and>
      getCurrentSnapshot e = Inr snapshot"
  then have b: "broadcastRankChanges e s = cycle_body e (s\<lparr> isBroadcasting := True \<rparr>)"
    by (simp add: broadcast_started)
  from h have c: "cycle_body e (s\<lparr> isBroadcasting := True \<rparr>) =
       (s\<lparr> isBroadcasting := True, previousSnapshots := snapshot, lastBroadcastTime := now e,
           isBroadcasting := False \<rparr>,
        [Log LInfo ''Starting leaderboard rank change broadcast'', Repo ''updateAllRanks'',
         Repo ''findMany'']
        @ broadcastPrivateRankChanges (io s) (detectRankChanges (previousSnapshots s) snapshot)
        @ broadcastPublicLeaderboardUpdate (io s) e
        @ broadcastAchievements (io s) e (detectRankChanges (previousSnapshots s) snapshot)
        @ [Log LInfo ''Leaderboard broadcast completed successfully''])"
    using cycle_body_success[of e u snapshot "s\<lparr> isBroadcasting := True \<rparr>"] by simp
  show "previousSnapshots (fst (broadcastRankChanges e s)) = snapshot"
    "lastBroadcastTime (fst (broadcastRankChanges e s)) = now e"
    "\<not> isBroadcasting (fst (broadcastRankChanges e s))"
    "last (snd (broadcastRankChanges e s))
          = Log LInfo ''Leaderboard broadcast completed successfully''"
    unfolding b c by simp_all
qed

lemma changes_ex:
  "map ev_userId (detectRankChanges prev_ex cur_ex) = [''U2'', ''U1'', ''U6'', ''U4'']"
  "detectRankChanges prev_ex cur_ex ! 1 = change_U1"
  by (simp_all add: detectRankChanges_def prev_ex_def cur_ex_def entry_def by_magnitude_def
      change_U1_def)

lemma getCurrentSnapshot_ok: "getCurrentSnapshot env_ok = Inr snapshot_ok"
  by (simp add: getCurrentSnapshot_def env_ok_def rows_ex_def cur_ex_def entry_def
      snapshot_ok_def)

theorem fanout_failures_isolated_witness:
  "\<not> fails_for ''U2'' (user_room ''U2'') ''rank_changed''
       (rank_changed_payload (detectRankChanges prev_ex cur_ex ! 0)) \<and>
   map fst (attempts (broadcastPrivateRankChanges (Some (fails_for ''U2''))
       (detectRankChanges prev_ex cur_ex)))
     = [''user:U2'', ''user:U1'', ''user:U6'', ''user:U4''] \<and>
   change_U1 \<in> set (detectRankChanges prev_ex cur_ex) \<and> detectAchievements change_U1 \<noteq> [] \<and>
   (user_room ''U1'', ''achievement_earned'',
      achievement_payload env_ok change_U1 (hd (detectAchievements change_U1)))
     \<in> set (attempts (broadcastAchievements (Some (fails_for ''U2'')) env_ok
          (detectRankChanges prev_ex cur_ex))) \<and>
   io state_ex = Some (fails_for ''U2'') \<and> executes_cycle env_ok state_ex \<and>
   updateAllRanks env_ok = Inr () \<and> getCurrentSnapshot env_ok = Inr snapshot_ok \<and>
   previousSnapshots (fst (broadcastRankChanges env_ok state_ex)) = snapshot_ok \<and>
   lastBroadcastTime (fst (broadcastRankChanges env_ok state_ex)) = 1000000 \<and>
   last (snd (broadcastRankChanges env_ok state_ex))
     = Log LInfo ''Leaderboard broadcast completed successfully''"
proof -
  note T = fanout_failures_isolated [of "fails_for ''U2''" "detectRankChanges prev_ex cur_ex"
      env_ok "[]" "[]" state_ex "()" snapshot_ok]
  have f: "\<not> fails_for ''U2'' (user_room ''U2'') ''rank_changed''
       (rank_changed_payload (detectRankChanges prev_ex cur_ex ! 0))"
    by (simp add: fails_for_def)
  have m: "change_U1 \<in> set (detectRankChanges prev_ex cur_ex)"
    using changes_ex(2) nth_mem[of 1 "detectRankChanges prev_ex cur_ex"]
      arg_cong[OF changes_ex(1), of length] by simp
  have a: "detectAchievements change_U1 \<noteq> []"
    using arg_cong[OF types_detectAchievements[of change_U1], of length]
    by (auto simp: change_U1_def)
  have h: "io state_ex = Some (fails_for ''U2'')" "executes_cycle env_ok state_ex"
    "updateAllRanks env_ok = Inr ()" "now env_ok = 1000000"
    by (simp_all add: state_ex_def executes_cycle_def cycle_entry_def env_ok_def
        MIN_BROADCAST_GAP_MS_def)
  have r0: "map fst (attempts (broadcastPrivateRankChanges (Some (fails_for ''U2''))
       (detectRankChanges prev_ex cur_ex)))
     = map user_room (map ev_userId (detectRankChanges prev_ex cur_ex))"
    using T by (simp add: comp_def)
  have r: "map fst (attempts (broadcastPrivateRankChanges (Some (fails_for ''U2''))
       (detectRankChanges prev_ex cur_ex)))
     = [''user:U2'', ''user:U1'', ''user:U6'', ''user:U4'']"
    unfolding r0 changes_ex(1) by (simp add: user_room_def)
  have u: "ev_userId change_U1 = ''U1''"
    by (simp add: change_U1_def)
  have x: "(user_room ''U1'', ''achievement_earned'',
      achievement_payload env_ok change_U1 (hd (detectAchievements change_U1)))
     \<in> set (attempts (broadcastAchievements (Some (fails_for ''U2'')) env_ok
          (detectRankChanges prev_ex cur_ex)))"
    using T m a u by auto
  have y: "previousSnapshots (fst (broadcastRankChanges env_ok state_ex)) = snapshot_ok"
    "lastBroadcastTime (fst (broadcastRankChanges env_ok state_ex)) = 1000000"
    "last (snd (broadcastRankChanges env_ok state_ex))
       = Log LInfo ''Leaderboard broadcast completed successfully''"
    using T h getCurrentSnapshot_ok by simp_all
  from f r m a x h(1,2,3) getCurrentSnapshot_ok y show ?thesis
    by (intro conjI)
qed

lemma completes_iff:
  "completes_cycle e s \<longleftrightarrow>
     executes_cycle e s \<and> (\<exists>u snapshot. updateAllRanks e = Inr u \<and> getCurrentSnapshot e = Inr snapshot)"
  by (auto simp: completes_cycle_def cycle_steps_def Let_def split: sum.splits)

lemma completed_state:
  assumes "completes_cycle e s"
  shows "lastBroadcastTime (fst (broadcastRankChanges e s)) = now e"
proof -
  from assms obtain u snapshot where
    h: "executes_cycle e s" "updateAllRanks e = Inr u" "getCurrentSnapshot e = Inr snapshot"
    by (auto simp: completes_iff)
  show ?thesis
    unfolding broadcast_started[OF h(1)] cycle_body_success[OF h(2,3)] by simp
qed

lemma too_soon_skips:
  "now e - lastBroadcastTime s < MIN_BROADCAST_GAP_MS \<Longrightarrow> \<not> executes_cycle e s"
  by (simp add: executes_cycle_def cycle_entry_def)

lemma restore_flag: "\<not> isBroadcasting s \<Longrightarrow> s\<lparr> isBroadcasting := False \<rparr> = s"
  by simp

lemma aborted_state:
  assumes "executes_cycle e s" "updateAllRanks e = Inl err \<or> findMany e = Inl err"
  shows "broadcastRankChanges e s =
      (s, [Log LInfo ''Starting leaderboard rank change broadcast'', Repo ''updateAllRanks'']
          @ (case updateAllRanks e of Inl x \<Rightarrow> [] | Inr u \<Rightarrow> [Repo ''findMany''])
          @ [Log LError ''Leaderboard broadcast failed''])"
proof (cases "updateAllRanks e")
  case (Inl x)
  from entry_started[OF assms(1)] have "\<not> isBroadcasting s" by simp
  then show ?thesis
    unfolding broadcast_started[OF assms(1)] cycle_body_recompute_fails[OF Inl]
    by (simp add: Inl)
next
  case (Inr u)
  with assms(2) have f: "findMany e = Inl err" by simp
  from entry_started[OF assms(1)] have "\<not> isBroadcasting s" by simp
  then show ?thesis
    unfolding broadcast_started[OF assms(1)] cycle_body_query_fails[OF Inr f]
    by (simp add: Inr)
qed

lemma last_broadcast_time:
  "lastBroadcastTime (fst (broadcastRankChanges e s))
     = (if completes_cycle e s then now e else lastBroadcastTime s)"
proof (cases "executes_cycle e s")
  case False
  then show ?thesis by (simp add: entry_skipped completes_cycle_def)
next
  case True
  show ?thesis
  proof (cases "completes_cycle e s")
    case c: True
    then show ?thesis by (simp add: completed_state)
  next
    case c: False
    with True have "(\<exists>err. updateAllRanks e = Inl err) \<or> (\<exists>err. findMany e = Inl err)"
      using getCurrentSnapshot_cases[of e]
      by (cases "updateAllRanks e") (auto simp: completes_iff)
    then obtain err where "updateAllRanks e = Inl err \<or> findMany e = Inl err" by blast
    from aborted_state[OF True this] c show ?thesis by simp
  qed
qed

section \<open>The minimum-gap gate\<close>

text \<open>
  C4, as the code has it. The gap is 240000 ms. An invocation less than the gap after
  \<open>lastBroadcastTime\<close> executes no cycle: it changes nothing and writes only the debug
  line. \<open>lastBroadcastTime\<close> is the entry time of the last cycle that completed: an
  invocation sets it to its own entry time when it completes a cycle and leaves it alone
  otherwise. Of two invocations less than the gap apart at most one completes a cycle,
  and when the first completes its cycle the second executes none.
\<close>

theorem min_gap_gate:
  "MIN_BROADCAST_GAP_MS = 240000 \<and>
   (now e - lastBroadcastTime s < MIN_BROADCAST_GAP_MS \<longrightarrow>
      \<not> executes_cycle e s \<and>
      broadcastRankChanges e s
        = (s, [Log LDebug ''Skipping broadcast - too soon since last broadcast''])) \<and>
   lastBroadcastTime (fst (broadcastRankChanges e s))
     = (if completes_cycle e s then now e else lastBroadcastTime s) \<and>
   (now e2 - now e1 < MIN_BROADCAST_GAP_MS \<longrightarrow> cycles_completed [e1, e2] s0 \<le> 1) \<and>
   (completes_cycle e1 s0 \<and> now e2 - now e1 < MIN_BROADCAST_GAP_MS \<longrightarrow>
      lastBroadcastTime (fst (broadcastRankChanges e1 s0)) = now e1 \<and>
      cycles_executed [e1, e2] s0 = 1 \<and>
      fst (broadcastRankChanges e2 (fst (broadcastRankChanges e1 s0)))
        = fst (broadcastRankChanges e1 s0))"
proof (intro conjI impI)
  show "MIN_BROADCAST_GAP_MS = 240000"
    by (simp add: MIN_BROADCAST_GAP_MS_def)
next
  assume h: "now e - lastBroadcastTime s < MIN_BROADCAST_GAP_MS"
  then show n: "\<not> executes_cycle e s" by (rule too_soon_skips)
  from entry_skipped[OF n] h
  show "broadcastRankChanges e s
        = (s, [Log LDebug ''Skipping broadcast - too soon since last broadcast''])"
    by simp
next
  show "lastBroadcastTime (fst (broadcastRankChanges e s))
     = (if completes_cycle e s then now e else lastBroadcastTime s)"
    by (rule last_broadcast_time)
next
  assume g: "now e2 - now e1 < MIN_BROADCAST_GAP_MS"
  show "cycles_completed [e1, e2] s0 \<le> 1"
  proof (cases "completes_cycle e1 s0")
    case True
    from completed_state[OF True] g
    have "\<not> executes_cycle e2 (fst (broadcastRankChanges e1 s0))"
      by (intro too_soon_skips) simp
    then show ?thesis by (simp add: completes_cycle_def)
  next
    case False
    then show ?thesis by simp
  qed
next
  assume h: "completes_cycle e1 s0 \<and> now e2 - now e1 < MIN_BROADCAST_GAP_MS"
  then show t: "lastBroadcastTime (fst (broadcastRankChanges e1 s0)) = now e1"
    by (simp add: completed_state)
  from h t have n: "\<not> executes_cycle e2 (fst (broadcastRankChanges e1 s0))"
    by (intro too_soon_skips) simp
  from h n show "cycles_executed [e1, e2] s0 = 1"
    by (simp add: completes_cycle_def)
  from entry_skipped[OF n]
  show "fst (broadcastRankChanges e2 (fst (broadcastRankChanges e1 s0)))
        = fst (broadcastRankChanges e1 s0)"
    by simp
qed

lemma ok_facts:
  "now env_ok = 1000000" "updateAllRanks env_ok = Inr ()"
  "now env_retry = 1000001" "updateAllRanks env_retry = Inr ()"
  "getCurrentSnapshot env_retry = getCurrentSnapshot env_ok"
  "now env_fail = 1000000" "updateAllRanks env_fail = Inl (Thrown ''connection lost'')"
  by (simp_all add: env_ok_def env_retry_def env_fail_def getCurrentSnapshot_def)

lemma init_executes:
  "executes_cycle env_ok init_state" "executes_cycle env_fail init_state"
  "executes_cycle env_retry init_state"
  by (simp_all add: executes_cycle_def cycle_entry_def init_state_def ok_facts
      MIN_BROADCAST_GAP_MS_def)

theorem min_gap_gate_witness:
  "now env_retry - now env_ok < MIN_BROADCAST_GAP_MS \<and> completes_cycle env_ok init_state \<and>
   lastBroadcastTime (fst (broadcastRankChanges env_ok init_state)) = 1000000 \<and>
   now env_retry - lastBroadcastTime (fst (broadcastRankChanges env_ok init_state))
     < MIN_BROADCAST_GAP_MS \<and>
   \<not> executes_cycle env_retry (fst (broadcastRankChanges env_ok init_state)) \<and>
   broadcastRankChanges env_retry (fst (broadcastRankChanges env_ok init_state))
     = (fst (broadcastRankChanges env_ok init_state),
        [Log LDebug ''Skipping broadcast - too soon since last broadcast'']) \<and>
   cycles_executed [env_ok, env_retry] init_state = 1 \<and>
   cycles_completed [env_ok, env_retry] init_state \<le> 1"
proof -
  have g: "now env_retry - now env_ok < MIN_BROADCAST_GAP_MS"
    by (simp add: ok_facts MIN_BROADCAST_GAP_MS_def)
  have c: "completes_cycle env_ok init_state"
    by (simp add: completes_iff init_executes ok_facts getCurrentSnapshot_ok)
  note T1 = min_gap_gate [of env_retry "fst (broadcastRankChanges env_ok init_state)"
      env_retry env_ok init_state]
  from T1 g c have t: "lastBroadcastTime (fst (broadcastRankChanges env_ok init_state)) = 1000000"
    by (simp add: ok_facts)
  then have l: "now env_retry - lastBroadcastTime (fst (broadcastRankChanges env_ok init_state))
     < MIN_BROADCAST_GAP_MS"
    by (simp add: ok_facts MIN_BROADCAST_GAP_MS_def)
  from T1 g c t l init_executes(1) show ?thesis by simp
qed

theorem two_cycles_within_gap_counterexample:
  "now env_retry - now env_fail = 1 \<and>
   executes_cycle env_fail init_state \<and>
   fst (broadcastRankChanges env_fail init_state) = init_state \<and>
   executes_cycle env_retry (fst (broadcastRankChanges env_fail init_state)) \<and>
   Repo ''updateAllRanks'' \<in> set (snd (broadcastRankChanges env_fail init_state)) \<and>
   Repo ''updateAllRanks'' \<in> set (snd (broadcastRankChanges env_retry
       (fst (broadcastRankChanges env_fail init_state)))) \<and>
   cycles_executed [env_fail, env_retry] init_state = 2"
proof -
  have a: "broadcastRankChanges env_fail init_state =
      (init_state, [Log LInfo ''Starting leaderboard rank change broadcast'',
         Repo ''updateAllRanks'', Log LError ''Leaderboard broadcast failed''])"
    using aborted_state[OF init_executes(2), of "Thrown ''connection lost''"]
    by (simp add: ok_facts)
  have b: "snd (broadcastRankChanges env_retry init_state)
      = snd (cycle_body env_retry (init_state\<lparr> isBroadcasting := True \<rparr>))"
    by (simp add: broadcast_started init_executes)
  have c: "Repo ''updateAllRanks'' \<in> set (snd (cycle_body env_retry (init_state\<lparr> isBroadcasting := True \<rparr>)))"
    using cycle_body_success[of env_retry "()" snapshot_ok "init_state\<lparr> isBroadcasting := True \<rparr>"]
    by (simp add: ok_facts getCurrentSnapshot_ok)
  show ?thesis
    by (simp add: a b c init_executes ok_facts)
qed

section \<open>Source failures\<close>

text \<open>
  C6, as the code has it. An invocation that executes a cycle always ends with the
  single-flight flag cleared. When \<open>updateAllRanks\<close> (the recompute) or \<open>findMany\<close> (the
  snapshot query) rejects, the cycle is aborted: the state is what it was before the
  invocation, previous snapshot and last-broadcast time included, nothing is emitted and
  the failure is logged. When these two succeed the cycle stores the new snapshot and
  the new time, whatever \<open>getGlobal\<close> and \<open>getWeekly\<close> do: their rejection is caught
  inside the public update, which logs it and emits nothing.
\<close>

theorem source_failure_aborts:
  "(executes_cycle e s \<longrightarrow> \<not> isBroadcasting (fst (broadcastRankChanges e s))) \<and>
   (executes_cycle e s \<and> (updateAllRanks e = Inl err \<or> findMany e = Inl err) \<longrightarrow>
      fst (broadcastRankChanges e s) = s \<and>
      attempts (snd (broadcastRankChanges e s)) = [] \<and>
      last (snd (broadcastRankChanges e s)) = Log LError ''Leaderboard broadcast failed'') \<and>
   (executes_cycle e s \<and> updateAllRanks e = Inr u \<and> getCurrentSnapshot e = Inr snapshot \<longrightarrow>
      previousSnapshots (fst (broadcastRankChanges e s)) = snapshot \<and>
      lastBroadcastTime (fst (broadcastRankChanges e s)) = now e) \<and>
   (getGlobal e 10 0 = Inl err' \<or> getWeekly e 10 0 = Inl err' \<longrightarrow>
      attempts (broadcastPublicLeaderboardUpdate (Some t) e) = [] \<and>
      last (broadcastPublicLeaderboardUpdate (Some t) e)
        = Log LError ''Failed to broadcast public leaderboard update'')"
proof (intro conjI impI)
  assume x: "executes_cycle e s"
  show "\<not> isBroadcasting (fst (broadcastRankChanges e s))"
    unfolding broadcast_started[OF x] by (rule cycle_body_clears_flag)
next
  assume h: "executes_cycle e s \<and> (updateAllRanks e = Inl err \<or> findMany e = Inl err)"
  then have a: "broadcastRankChanges e s =
      (s, [Log LInfo ''Starting leaderboard rank change broadcast'', Repo ''updateAllRanks'']
          @ (case updateAllRanks e of Inl x \<Rightarrow> [] | Inr u \<Rightarrow> [Repo ''findMany''])
          @ [Log LError ''Leaderboard broadcast failed''])"
    using aborted_state[of e s err] by blast
  show "fst (broadcastRankChanges e s) = s"
    "attempts (snd (broadcastRankChanges e s)) = []"
    "last (snd (broadcastRankChanges e s)) = Log LError ''Leaderboard broadcast failed''"
    unfolding a by (simp_all add: attempts_append split: sum.splits)
next
  assume h: "executes_cycle e s \<and> updateAllRanks e = Inr u \<and> getCurrentSnapshot e = Inr snapshot"
  then have b: "broadcastRankChanges e s = cycle_body e (s\<lparr> isBroadcasting := True \<rparr>)"
    by (simp add: broadcast_started)
  from h show "previousSnapshots (fst (broadcastRankChanges e s)) = snapshot"
    "lastBroadcastTime (fst (broadcastRankChanges e s)) = now e"
    unfolding b using cycle_body_success[of e u snapshot "s\<lparr> isBroadcasting := True \<rparr>"]
    by simp_all
next
  assume h: "getGlobal e 10 0 = Inl err' \<or> getWeekly e 10 0 = Inl err'"
  then show "attempts (broadcastPublicLeaderboardUpdate (Some t) e) = []"
    "last (broadcastPublicLeaderboardUpdate (Some t) e)
        = Log LError ''Failed to broadcast public leaderboard update''"
    by (auto simp: broadcastPublicLeaderboardUpdate_def split: sum.splits)
qed

theorem source_failure_aborts_witness:
  "executes_cycle env_fail init_state \<and>
   updateAllRanks env_fail = Inl (Thrown ''connection lost'') \<and>
   fst (broadcastRankChanges env_fail init_state) = init_state \<and>
   \<not> isBroadcasting (fst (broadcastRankChanges env_fail init_state)) \<and>
   last (snd (broadcastRankChanges env_fail init_state))
     = Log LError ''Leaderboard broadcast failed'' \<and>
   executes_cycle env_top_fails state_ex \<and> updateAllRanks env_top_fails = Inr () \<and>
   getCurrentSnapshot env_top_fails = Inr snapshot_ok \<and>
   getGlobal env_top_fails 10 0 = Inl (Thrown ''query failed'') \<and>
   previousSnapshots (fst (broadcastRankChanges env_top_fails state_ex)) = snapshot_ok \<and>
   attempts (broadcastPublicLeaderboardUpdate (Some all_delivered) env_top_fails) = []"
proof -
  note A = source_failure_aborts [of env_fail init_state "Thrown ''connection lost''" "()"
      snapshot_ok "Thrown ''query failed''" all_delivered]
  note B = source_failure_aborts [of env_top_fails state_ex "Thrown ''query failed''" "()"
      snapshot_ok "Thrown ''query failed''" all_delivered]
  have t: "updateAllRanks env_top_fails = Inr ()"
    "getGlobal env_top_fails 10 0 = Inl (Thrown ''query failed'')"
    "getCurrentSnapshot env_top_fails = getCurrentSnapshot env_ok"
    "now env_top_fails = 1000000"
    by (simp_all add: env_top_fails_def env_ok_def getCurrentSnapshot_def)
  have x: "executes_cycle env_top_fails state_ex"
    by (simp add: executes_cycle_def cycle_entry_def state_ex_def t MIN_BROADCAST_GAP_MS_def)
  from A init_executes(2) ok_facts(7)
  have a: "fst (broadcastRankChanges env_fail init_state) = init_state"
    "\<not> isBroadcasting (fst (broadcastRankChanges env_fail init_state))"
    "last (snd (broadcastRankChanges env_fail init_state))
       = Log LError ''Leaderboard broadcast failed''"
    by (simp_all add: init_state_def)
  from B x t getCurrentSnapshot_ok
  have b: "previousSnapshots (fst (broadcastRankChanges env_top_fails state_ex)) = snapshot_ok"
    "attempts (broadcastPublicLeaderboardUpdate (Some all_delivered) env_top_fails) = []"
    by simp_all
  from a b x t getCurrentSnapshot_ok init_executes(2) ok_facts(7) show ?thesis
    by simp
qed

theorem top_query_failure_counterexample:
  "getGlobal env_top_fails 10 0 = Inl (Thrown ''query failed'') \<and>
   executes_cycle env_top_fails state_ex \<and>
   Repo ''getGlobal'' \<in> set (snd (broadcastRankChanges env_top_fails state_ex)) \<and>
   last (snd (broadcastRankChanges env_top_fails state_ex))
     = Log LInfo ''Leaderboard broadcast completed successfully'' \<and>
   previousSnapshots state_ex = prev_ex \<and>
   previousSnapshots (fst (broadcastRankChanges env_top_fails state_ex)) = snapshot_ok \<and>
   prev_ex \<noteq> snapshot_ok \<and>
   lastBroadcastTime state_ex = 0 \<and>
   lastBroadcastTime (fst (broadcastRankChanges env_top_fails state_ex)) = 1000000"
proof -
  have t: "updateAllRanks env_top_fails = Inr ()"
    "getGlobal env_top_fails 10 0 = Inl (Thrown ''query failed'')"
    "getCurrentSnapshot env_top_fails = Inr snapshot_ok"
    "now env_top_fails = 1000000"
    using getCurrentSnapshot_ok
    by (simp_all add: env_top_fails_def env_ok_def getCurrentSnapshot_def)
  have x: "executes_cycle env_top_fails state_ex"
    by (simp add: executes_cycle_def cycle_entry_def state_ex_def t MIN_BROADCAST_GAP_MS_def)
  have p: "broadcastPublicLeaderboardUpdate (Some (fails_for ''U2'')) env_top_fails
      = [Repo ''getGlobal'', Log LError ''Failed to broadcast public leaderboard update'']"
    by (simp add: broadcastPublicLeaderboardUpdate_def t)
  have s: "io state_ex = Some (fails_for ''U2'')" "previousSnapshots state_ex = prev_ex"
    "lastBroadcastTime state_ex = 0"
    by (simp_all add: state_ex_def)
  have n: "prev_ex \<noteq> snapshot_ok"
    by (simp add: prev_ex_def snapshot_ok_def cur_ex_def)
  show ?thesis
    unfolding broadcast_started[OF x]
      cycle_body_success[OF t(1) t(3), of "state_ex\<lparr> isBroadcasting := True \<rparr>"]
    using x n by (simp add: t s p)
qed

section \<open>The single-flight gate\<close>

lemma entry_cases:
  "cycle_entry e s = (started, s', effects) \<Longrightarrow>
     (started \<and> \<not> isBroadcasting s \<and> s' = s\<lparr> isBroadcasting := True \<rparr>) \<or>
     (\<not> started \<and> s' = s)"
  by (auto simp: cycle_entry_def Let_def split: if_splits)

lemma reachable_single_flight:
  "reachable cfg \<Longrightarrow>
     length (snd cfg) \<le> 1 \<and> (isBroadcasting (fst cfg) \<longleftrightarrow> snd cfg \<noteq> [])"
proof (induction rule: reachable.induct)
  case start
  show ?case by (simp add: init_state_def)
next
  case (bind s inflight t)
  then show ?case by (simp add: initialize_def)
next
  case (skip s inflight e s' effects)
  from entry_cases[OF skip.hyps(2)] have "s' = s" by simp
  with skip.IH show ?case by simp
next
  case (enter s inflight e s' effects)
  from entry_cases[OF enter.hyps(2)]
  have "\<not> isBroadcasting s" "s' = s\<lparr> isBroadcasting := True \<rparr>" by simp_all
  with enter.IH show ?case by simp
next
  case (finish s inflight e)
  from finish.IH finish.hyps(2) have "inflight = [e]"
    by (cases inflight) auto
  then show ?case by (simp add: cycle_body_clears_flag)
qed

text \<open>
  C5. While \<open>isBroadcasting\<close> is set, an invocation executes no cycle: the state stays as
  it is and the invocation only writes a debug line (nothing is queued: the cycles in
  flight are the same before and after). In every configuration that overlapping
  invocations can reach, at most one cycle is in flight, and the flag is set exactly
  while one is.
\<close>

theorem single_flight_gate:
  "(isBroadcasting s \<longrightarrow>
      \<not> executes_cycle e s \<and> fst (broadcastRankChanges e s) = s \<and>
      list_all is_log (snd (broadcastRankChanges e s)) \<and>
      \<not> fst (cycle_entry e s) \<and> fst (snd (cycle_entry e s)) = s) \<and>
   (reachable (s0, inflight) \<longrightarrow>
      length inflight \<le> 1 \<and> (isBroadcasting s0 \<longleftrightarrow> inflight \<noteq> []))"
proof (intro conjI impI)
  assume b: "isBroadcasting s"
  then show n: "\<not> executes_cycle e s"
    by (simp add: executes_cycle_def cycle_entry_def)
  from entry_skipped[OF n]
  show "fst (broadcastRankChanges e s) = s" "list_all is_log (snd (broadcastRankChanges e s))"
    by simp_all
  from n show "\<not> fst (cycle_entry e s)"
    by (simp add: executes_cycle_def)
  from b show "fst (snd (cycle_entry e s)) = s"
    by (simp add: cycle_entry_def)
next
  assume r: "reachable (s0, inflight)"
  from reachable_single_flight[OF r]
  show "length inflight \<le> 1" "isBroadcasting s0 \<longleftrightarrow> inflight \<noteq> []"
    by simp_all
qed

theorem single_flight_gate_witness:
  "isBroadcasting state_inflight \<and> reachable (state_inflight, [env_ok]) \<and>
   \<not> now env_late - lastBroadcastTime state_inflight < MIN_BROADCAST_GAP_MS \<and>
   \<not> executes_cycle env_late state_inflight \<and>
   fst (broadcastRankChanges env_late state_inflight) = state_inflight \<and>
   snd (broadcastRankChanges env_late state_inflight)
     = [Log LDebug ''Skipping broadcast - already in progress''] \<and>
   list_all is_log (snd (broadcastRankChanges env_late state_inflight)) \<and>
   length [env_ok] \<le> 1"
proof -
  note T = single_flight_gate [of state_inflight env_late state_inflight "[env_ok]"]
  have b: "isBroadcasting state_inflight"
    by (simp add: state_inflight_def)
  have "cycle_entry env_ok init_state = (True, state_inflight, [])"
    by (simp add: cycle_entry_def init_state_def state_inflight_def ok_facts
        MIN_BROADCAST_GAP_MS_def)
  from reachable.enter[OF reachable.start this]
  have r: "reachable (state_inflight, [env_ok])" .
  have g: "\<not> now env_late - lastBroadcastTime state_inflight < MIN_BROADCAST_GAP_MS"
    by (simp add: env_late_def env_ok_def state_inflight_def init_state_def
        MIN_BROADCAST_GAP_MS_def)
  from T b have n: "\<not> executes_cycle env_late state_inflight" by simp
  from entry_skipped[OF n] g
  have l: "snd (broadcastRankChanges env_late state_inflight)
     = [Log LDebug ''Skipping broadcast - already in progress'']"
    by simp
  from T b r g l show ?thesis by simp
qed

lemma public_payloads_append:
  "public_payloads (xs @ ys) = public_payloads xs @ public_payloads ys"
  by (simp add: public_payloads_def attempts_append)

lemma public_payloads_user_rooms:
  assumes "set (emit_rooms xs) \<subseteq> user_room ` U"
  shows "public_payloads xs = []"
proof -
  have "\<forall>a \<in> set (attempts xs). fst a \<noteq> ''leaderboard:global''"
  proof
    fix a assume "a \<in> set (attempts xs)"
    then have "fst a \<in> set (emit_rooms xs)" by (simp add: emit_rooms_def)
    with assms obtain u where "fst a = user_room u" by blast
    then show "fst a \<noteq> ''leaderboard:global''" by (simp add: user_room_def)
  qed
  then have "filter (\<lambda>a. fst a = ''leaderboard:global'') (attempts xs) = []"
    by (simp add: filter_empty_conv)
  then show ?thesis by (simp add: public_payloads_def)
qed

lemma public_payloads_private [simp]:
  "public_payloads (broadcastPrivateRankChanges sock changes) = []"
  using rooms_broadcastPrivate by (rule public_payloads_user_rooms)

lemma public_payloads_achievements [simp]:
  "public_payloads (broadcastAchievements sock e changes) = []"
  using rooms_broadcastAchievements by (rule public_payloads_user_rooms)

lemma public_payloads_public:
  "public_payloads (broadcastPublicLeaderboardUpdate sock e) =
     (case sock of
        None \<Rightarrow> []
      | Some t \<Rightarrow>
          (case getGlobal e 10 0 of
             Inl err \<Rightarrow> []
           | Inr g \<Rightarrow> (case getWeekly e 10 0 of
                         Inl err \<Rightarrow> []
                       | Inr w \<Rightarrow> [leaderboard_event e g w])))"
  by (simp add: public_payloads_def broadcastPublicLeaderboardUpdate_def
      split: option.splits sum.splits)

lemma public_payloads_simps [simp]:
  "public_payloads [] = []"
  "public_payloads (Log l m # xs) = public_payloads xs"
  "public_payloads (Repo c # xs) = public_payloads xs"
  by (simp_all add: public_payloads_def)

lemma public_payloads_body:
  "public_payloads (snd (cycle_body e s)) = [] \<or>
   public_payloads (snd (cycle_body e s))
     = public_payloads (broadcastPublicLeaderboardUpdate (io s) e)"
proof (cases "updateAllRanks e")
  case (Inl err)
  then show ?thesis by (simp add: cycle_body_recompute_fails)
next
  case (Inr u)
  show ?thesis
  proof (cases "getCurrentSnapshot e")
    case (Inl err)
    with Inr show ?thesis
      by (simp add: cycle_body_def cycle_steps_def public_payloads_append)
  next
    case r: (Inr snapshot)
    show ?thesis
      by (simp add: cycle_body_success[OF Inr r] public_payloads_append)
  qed
qed

lemma public_payloads_cycle:
  "public_payloads (snd (broadcastRankChanges e s)) = [] \<or>
   public_payloads (snd (broadcastRankChanges e s))
     = public_payloads (broadcastPublicLeaderboardUpdate (io s) e)"
proof (cases "executes_cycle e s")
  case True
  show ?thesis
    unfolding broadcast_started[OF True]
    using public_payloads_body[of e "s\<lparr> isBroadcasting := True \<rparr>"] by simp
next
  case False
  show ?thesis by (simp add: entry_skipped[OF False])
qed

lemma fields_of_entries:
  "own_fields (global_entry lb) = [''userId'', ''username'', ''rank'', ''pnl'']"
  "own_fields (weekly_entry lb) = [''userId'', ''username'', ''rank'', ''pnl'']"
  "field_names (global_entry lb) = [''userId'', ''username'', ''rank'', ''pnl'']"
  "field_names (weekly_entry lb) = [''userId'', ''username'', ''rank'', ''pnl'']"
  by (simp_all add: global_entry_def weekly_entry_def)

lemma entries_of_event:
  "entries_of ''topGlobal'' (leaderboard_event e g w) = map global_entry g"
  "entries_of ''topWeekly'' (leaderboard_event e g w) = map weekly_entry w"
  "own_fields (leaderboard_event e g w) = [''type'', ''topGlobal'', ''topWeekly'', ''timestamp'']"
  by (simp_all add: leaderboard_event_def entries_of_def)

lemma field_names_event:
  "set (field_names (leaderboard_event e g w))
     \<subseteq> {''type'', ''topGlobal'', ''topWeekly'', ''timestamp'',
         ''userId'', ''username'', ''rank'', ''pnl''}"
  by (auto simp: leaderboard_event_def fields_of_entries)

lemma public_payload_origin:
  "p \<in> set (public_payloads (broadcastPublicLeaderboardUpdate sock e)) \<Longrightarrow>
     \<exists>g w. getGlobal e 10 0 = Inr g \<and> getWeekly e 10 0 = Inr w \<and> p = leaderboard_event e g w"
  by (cases sock; cases "getGlobal e 10 0"; cases "getWeekly e 10 0")
     (simp_all add: public_payloads_public)

section \<open>The public leaderboard update\<close>

text \<open>
  C1, as the code has it. An invocation emits at most one payload to the shared room. Its
  \<open>topGlobal\<close> and \<open>topWeekly\<close> are the rows that \<open>getGlobal(10, 0)\<close> and
  \<open>getWeekly(10, 0)\<close> returned, one entry for each row in order, so at most 10 entries
  each when the repository honours the limit. Every entry has exactly the fields
  \<open>userId\<close>, \<open>username\<close>, \<open>rank\<close> and \<open>pnl\<close>, and no field named \<open>rankChange\<close> occurs
  anywhere in the payload.
\<close>

theorem public_update_shape:
  "length (public_payloads (snd (broadcastRankChanges e s))) \<le> 1 \<and>
   (p \<in> set (public_payloads (snd (broadcastRankChanges e s))) \<longrightarrow>
      own_fields p = [''type'', ''topGlobal'', ''topWeekly'', ''timestamp''] \<and>
      (\<exists>g w. getGlobal e 10 0 = Inr g \<and> getWeekly e 10 0 = Inr w \<and>
             entries_of ''topGlobal'' p = map global_entry g \<and>
             entries_of ''topWeekly'' p = map weekly_entry w) \<and>
      (honours_limit e \<longrightarrow>
         length (entries_of ''topGlobal'' p) \<le> 10 \<and> length (entries_of ''topWeekly'' p) \<le> 10) \<and>
      (\<forall>x \<in> set (entries_of ''topGlobal'' p @ entries_of ''topWeekly'' p).
         own_fields x = [''userId'', ''username'', ''rank'', ''pnl'']) \<and>
      ''rankChange'' \<notin> set (field_names p))"
proof (intro conjI)
  show "length (public_payloads (snd (broadcastRankChanges e s))) \<le> 1"
    using public_payloads_cycle[of e s]
    by (auto simp: public_payloads_public split: option.splits sum.splits)
next
  show "p \<in> set (public_payloads (snd (broadcastRankChanges e s))) \<longrightarrow>
      own_fields p = [''type'', ''topGlobal'', ''topWeekly'', ''timestamp''] \<and>
      (\<exists>g w. getGlobal e 10 0 = Inr g \<and> getWeekly e 10 0 = Inr w \<and>
             entries_of ''topGlobal'' p = map global_entry g \<and>
             entries_of ''topWeekly'' p = map weekly_entry w) \<and>
      (honours_limit e \<longrightarrow>
         length (entries_of ''topGlobal'' p) \<le> 10 \<and> length (entries_of ''topWeekly'' p) \<le> 10) \<and>
      (\<forall>x \<in> set (entries_of ''topGlobal'' p @ entries_of ''topWeekly'' p).
         own_fields x = [''userId'', ''username'', ''rank'', ''pnl'']) \<and>
      ''rankChange'' \<notin> set (field_names p)"
  proof
    assume m: "p \<in> set (public_payloads (snd (broadcastRankChanges e s)))"
    with public_payloads_cycle[of e s]
    have "p \<in> set (public_payloads (broadcastPublicLeaderboardUpdate (io s) e))"
      by auto
    from public_payload_origin[OF this] obtain g w where
      gw: "getGlobal e 10 0 = Inr g" "getWeekly e 10 0 = Inr w" "p = leaderboard_event e g w"
      by blast
    have a: "own_fields p = [''type'', ''topGlobal'', ''topWeekly'', ''timestamp'']"
      by (simp add: gw(3) entries_of_event)
    have b: "\<exists>g w. getGlobal e 10 0 = Inr g \<and> getWeekly e 10 0 = Inr w \<and>
             entries_of ''topGlobal'' p = map global_entry g \<and>
             entries_of ''topWeekly'' p = map weekly_entry w"
      using gw by (simp add: entries_of_event)
    have c: "\<forall>x \<in> set (entries_of ''topGlobal'' p @ entries_of ''topWeekly'' p).
         own_fields x = [''userId'', ''username'', ''rank'', ''pnl'']"
      by (auto simp: gw(3) entries_of_event fields_of_entries)
    have d: "''rankChange'' \<notin> set (field_names p)"
      using field_names_event[of e g w] unfolding gw(3) by auto
    have l: "honours_limit e \<longrightarrow>
         length (entries_of ''topGlobal'' p) \<le> 10 \<and> length (entries_of ''topWeekly'' p) \<le> 10"
      using gw by (simp add: honours_limit_def entries_of_event)
    from a b c d l
    show "own_fields p = [''type'', ''topGlobal'', ''topWeekly'', ''timestamp''] \<and>
      (\<exists>g w. getGlobal e 10 0 = Inr g \<and> getWeekly e 10 0 = Inr w \<and>
             entries_of ''topGlobal'' p = map global_entry g \<and>
             entries_of ''topWeekly'' p = map weekly_entry w) \<and>
      (honours_limit e \<longrightarrow>
         length (entries_of ''topGlobal'' p) \<le> 10 \<and> length (entries_of ''topWeekly'' p) \<le> 10) \<and>
      (\<forall>x \<in> set (entries_of ''topGlobal'' p @ entries_of ''topWeekly'' p).
         own_fields x = [''userId'', ''username'', ''rank'', ''pnl'']) \<and>
      ''rankChange'' \<notin> set (field_names p)"
      by (intro conjI)
  qed
qed

lemma top_facts:
  "getGlobal env_ok 10 0 = Inr top_ex" "getWeekly env_ok 10 0 = Inr (rev top_ex)"
  "honours_limit env_ok"
  by (simp_all add: env_ok_def top_ex_def honours_limit_def)

lemma first_cycle_public:
  "public_payloads (snd (broadcastRankChanges env_ok state_bound))
     = [leaderboard_event env_ok top_ex (rev top_ex)]"
proof -
  have x: "executes_cycle env_ok state_bound"
    by (simp add: executes_cycle_def cycle_entry_def state_bound_def initialize_def
        init_state_def ok_facts MIN_BROADCAST_GAP_MS_def)
  have i: "io (state_bound\<lparr> isBroadcasting := True \<rparr>) = Some all_delivered"
    by (simp add: state_bound_def initialize_def)
  show ?thesis
    unfolding broadcast_started[OF x] cycle_body_success[OF ok_facts(2) getCurrentSnapshot_ok]
    by (simp add: public_payloads_append i public_payloads_public top_facts)
qed

theorem public_update_shape_witness:
  "leaderboard_event env_ok top_ex (rev top_ex)
     \<in> set (public_payloads (snd (broadcastRankChanges env_ok state_bound))) \<and>
   honours_limit env_ok \<and>
   length (entries_of ''topGlobal'' (leaderboard_event env_ok top_ex (rev top_ex))) \<le> 10 \<and>
   length (entries_of ''topWeekly'' (leaderboard_event env_ok top_ex (rev top_ex))) \<le> 10 \<and>
   map own_fields (entries_of ''topWeekly'' (leaderboard_event env_ok top_ex (rev top_ex)))
     = [[''userId'', ''username'', ''rank'', ''pnl''], [''userId'', ''username'', ''rank'', ''pnl'']] \<and>
   ''rankChange'' \<notin> set (field_names (leaderboard_event env_ok top_ex (rev top_ex)))"
proof -
  note T = public_update_shape [of env_ok state_bound
      "leaderboard_event env_ok top_ex (rev top_ex)"]
  have m: "leaderboard_event env_ok top_ex (rev top_ex)
     \<in> set (public_payloads (snd (broadcastRankChanges env_ok state_bound)))"
    by (simp add: first_cycle_public)
  have f: "map own_fields (entries_of ''topWeekly'' (leaderboard_event env_ok top_ex (rev top_ex)))
     = [[''userId'', ''username'', ''rank'', ''pnl''], [''userId'', ''username'', ''rank'', ''pnl'']]"
    by (simp add: entries_of_event fields_of_entries top_ex_def)
  from T m top_facts(3) f show ?thesis by simp
qed

theorem public_entry_fields_counterexample:
  "map own_fields (concat (map (entries_of ''topGlobal'')
       (public_payloads (snd (broadcastRankChanges env_ok state_bound)))))
     = [[''userId'', ''username'', ''rank'', ''pnl''], [''userId'', ''username'', ''rank'', ''pnl'']] \<and>
   \<not> list_all name_rank_pnl_only (concat (map (entries_of ''topGlobal'')
       (public_payloads (snd (broadcastRankChanges env_ok state_bound)))))"
  by (simp add: first_cycle_public entries_of_event fields_of_entries top_ex_def
      name_rank_pnl_only_def)

section \<open>Snapshots are maps\<close>

text \<open>
  Every snapshot the service builds or stores has each user once, so the hypothesis
  \<open>wf_snapshot\<close> of the results above holds of every snapshot the code compares.
\<close>

lemma fold_set_distinct:
  "distinct (map fst m) \<Longrightarrow>
     distinct (map fst (fold (\<lambda>lb snapshot. AList.update (k lb) (v lb) snapshot) rows m))"
  by (induction rows arbitrary: m) (simp_all add: distinct_update)

lemma wf_getCurrentSnapshot: "getCurrentSnapshot e = Inr m \<Longrightarrow> wf_snapshot m"
  unfolding getCurrentSnapshot_def wf_snapshot_def
  by (auto split: sum.splits intro!: fold_set_distinct)

lemma wf_cycle_body:
  "wf_snapshot (previousSnapshots s) \<Longrightarrow> wf_snapshot (previousSnapshots (fst (cycle_body e s)))"
proof (cases "updateAllRanks e")
  case (Inl err)
  then show "wf_snapshot (previousSnapshots s) \<Longrightarrow> ?thesis"
    by (simp add: cycle_body_recompute_fails)
next
  case (Inr u)
  assume w: "wf_snapshot (previousSnapshots s)"
  show ?thesis
  proof (cases "getCurrentSnapshot e")
    case (Inl err)
    with Inr w show ?thesis by (simp add: cycle_body_def cycle_steps_def)
  next
    case r: (Inr snapshot)
    from wf_getCurrentSnapshot[OF r] show ?thesis
      by (simp add: cycle_body_success[OF Inr r])
  qed
qed

lemma reachable_wf:
  "reachable cfg \<Longrightarrow> wf_snapshot (previousSnapshots (fst cfg))"
proof (induction rule: reachable.induct)
  case start
  show ?case by (simp add: init_state_def wf_snapshot_def)
next
  case (bind s inflight t)
  then show ?case by (simp add: initialize_def)
next
  case (skip s inflight e s' effects)
  from entry_cases[OF skip.hyps(2)] skip.IH show ?case by simp
next
  case (enter s inflight e s' effects)
  from entry_cases[OF enter.hyps(2)] enter.IH show ?case by auto
next
  case (finish s inflight e)
  then show ?case by (simp add: wf_cycle_body)
qed

end
